theory Spec2Isabelle
  imports Complex_Main
begin

chapter \<open>Model\<close>

section \<open>Subtitle timestamps (workers/stt\_worker.py, api/jobs.py)\<close>

text \<open>
  Python floats are idealised as reals. \<open>x // y\<close> on floats is the floor of the quotient,
  \<open>x % y\<close> the remainder of that floor division, and \<open>int(x)\<close> truncates toward zero.
  The format specification \<open>{n:0wd}\<close> prints the decimal digits of \<open>n\<close>, padded with
  zeros on the left to a width of at least \<open>w\<close> (the sign, if any, counts for the width).
\<close>

definition digit_char :: "nat \<Rightarrow> char" where
  "digit_char d = ''0123456789'' ! d"

fun str_nat :: "nat \<Rightarrow> string" where
  "str_nat n = (if n < 10 then [digit_char n] else str_nat (n div 10) @ [digit_char (n mod 10)])"

declare str_nat.simps [simp del]




definition py_int :: "real \<Rightarrow> int" where
  "py_int x = (if 0 \<le> x then \<lfloor>x\<rfloor> else \<lceil>x\<rceil>)"









section \<open>Stored transcript (services/background\_tasks.py, workers/stt\_worker.py)\<close>

text \<open>
  A \<open>string\<close> is a list of code points below 256. \<open>str.split()\<close> without arguments cuts a
  string at runs of whitespace and drops empty pieces; the whitespace code points of a
  Python \<open>str\<close> in this range are the ones listed. The scan keeps the word being read in
  \<open>cur\<close>. \<open>sep.join(xs)\<close> puts \<open>sep\<close> between consecutive elements.
\<close>

definition py_isspace :: "char \<Rightarrow> bool" where
  "py_isspace c = (of_char c \<in> set [9, 10, 11, 12, 13, 28, 29, 30, 31, 32, 133, 160 :: nat])"

fun split_loop :: "('a \<Rightarrow> bool) \<Rightarrow> 'a list \<Rightarrow> 'a list \<Rightarrow> 'a list list" where
  "split_loop sp cur [] = (if cur = [] then [] else [cur])"
| "split_loop sp cur (c # cs) =
     (if sp c then (if cur = [] then split_loop sp [] cs else cur # split_loop sp [] cs)
      else split_loop sp (cur @ [c]) cs)"

definition py_split :: "string \<Rightarrow> string list" where
  "py_split s = split_loop py_isspace [] s"

fun py_join :: "'a list \<Rightarrow> 'a list list \<Rightarrow> 'a list" where
  "py_join sep [] = []"
| "py_join sep [x] = x"
| "py_join sep (x # y # ys) = x @ sep @ py_join sep (y # ys)"

text \<open>
  A produced segment is the dictionary \<open>{"start", "end", "text", ...}\<close> (confidence and word
  timings play no part here and are left out); \<open>info\<close> carries the detected language and
  the duration, either of which may be missing. The transcript row is built from them as
  both \<open>run_transcription\<close> and \<open>transcribe_audio\<close> do.
\<close>

record Seg =
  seg_start :: real
  seg_end :: real
  seg_text :: string

record Info =
  info_language :: "string option"
  info_duration :: "real option"

record Transcript =
  t_job_id :: string
  t_language :: string
  t_duration :: real
  word_count :: nat
  full_text :: string
  speaker_count :: "nat option"

definition new_transcript :: "string \<Rightarrow> string \<Rightarrow> Info \<Rightarrow> Seg list \<Rightarrow> Transcript" where
  "new_transcript jid job_language info segments =
     \<lparr>t_job_id = jid,
      t_language = (case info_language info of Some l \<Rightarrow> l | None \<Rightarrow> job_language),
      t_duration = (case info_duration info of Some d \<Rightarrow> d | None \<Rightarrow> 0),
      word_count = sum_list (map (\<lambda>seg. length (py_split (seg_text seg))) segments),
      full_text = py_join '' '' (map seg_text segments),
      speaker_count = None\<rparr>"

text \<open>
  The number of whitespace-separated tokens of a string, counted without cutting it: a
  token starts at every non-whitespace code point that is the first of the string or
  follows a whitespace code point.
\<close>

definition token_starts :: "('a \<Rightarrow> bool) \<Rightarrow> 'a option \<Rightarrow> 'a list \<Rightarrow> nat" where
  "token_starts sp before s =
     length (filter (\<lambda>(p, c). \<not> sp c \<and> (case p of None \<Rightarrow> True | Some q \<Rightarrow> sp q))
               (zip (before # map Some s) s))"

definition token_count :: "string \<Rightarrow> nat" where
  "token_count s = token_starts py_isspace None s"

section \<open>Speaker assignment (workers/diarization\_worker.py)\<close>

text \<open>
  A diarization interval is the dictionary \<open>{"start", "end", "speaker"}\<close>. A Python
  \<open>dict\<close> keeps its keys in insertion order: it is an association list in which a
  stored key keeps its place and a new key goes to the end.
\<close>

record DSeg =
  d_start :: real
  d_end :: real
  d_speaker :: string

type_synonym 'v pydict = "(string \<times> 'v) list"

definition dict_get :: "'v pydict \<Rightarrow> string \<Rightarrow> 'v \<Rightarrow> 'v" where
  "dict_get d k dflt = (case map_of d k of None \<Rightarrow> dflt | Some v \<Rightarrow> v)"

definition dict_set :: "'v pydict \<Rightarrow> string \<Rightarrow> 'v \<Rightarrow> 'v pydict" where
  "dict_set d k v =
     (if k \<in> set (map fst d) then map (\<lambda>(k', v'). if k' = k then (k', v) else (k', v')) d
      else d @ [(k, v)])"

text \<open>
  \<open>max(d, key=d.get)\<close> walks the keys in order and keeps the first key whose value is
  not exceeded later: the held key is replaced only by a strictly greater value.
\<close>

fun max_key_loop :: "string \<Rightarrow> real \<Rightarrow> real pydict \<Rightarrow> string" where
  "max_key_loop best bv [] = best"
| "max_key_loop best bv ((k, v) # rest) =
     (if bv < v then max_key_loop k v rest else max_key_loop best bv rest)"

definition seg_overlap :: "real \<Rightarrow> real \<Rightarrow> DSeg \<Rightarrow> real" where
  "seg_overlap start end d =
     (let overlap_start = max start (d_start d);
          overlap_end = min end (d_end d)
      in max 0 (overlap_end - overlap_start))"

fun speaker_times_loop :: "real pydict \<Rightarrow> real \<Rightarrow> real \<Rightarrow> DSeg list \<Rightarrow> real pydict" where
  "speaker_times_loop speaker_times start end [] = speaker_times"
| "speaker_times_loop speaker_times start end (d_seg # rest) =
     (let overlap = seg_overlap start end d_seg
      in if 0 < overlap
         then speaker_times_loop
                (dict_set speaker_times (d_speaker d_seg)
                   (dict_get speaker_times (d_speaker d_seg) 0 + overlap))
                start end rest
         else speaker_times_loop speaker_times start end rest)"

definition find_speaker_for_segment :: "DSeg list \<Rightarrow> real \<Rightarrow> real \<Rightarrow> string option" where
  "find_speaker_for_segment diarization start end =
     (if diarization = [] then None
      else case speaker_times_loop [] start end diarization of
             [] \<Rightarrow> None
           | (k, v) # rest \<Rightarrow> Some (max_key_loop k v rest))"




section \<open>Jobs and the store (schemas/job.py, models/database.py)\<close>

datatype JobStatus =
  PENDING | QUEUED | PROCESSING | TRANSCRIBING | DIARIZING | SYNTHESIZING | SYNCING
  | COMPLETED | FAILED | CANCELLED

fun status_value :: "JobStatus \<Rightarrow> string" where
  "status_value PENDING = ''pending''"
| "status_value QUEUED = ''queued''"
| "status_value PROCESSING = ''processing''"
| "status_value TRANSCRIBING = ''transcribing''"
| "status_value DIARIZING = ''diarizing''"
| "status_value SYNTHESIZING = ''synthesizing''"
| "status_value SYNCING = ''syncing''"
| "status_value COMPLETED = ''completed''"
| "status_value FAILED = ''failed''"
| "status_value CANCELLED = ''cancelled''"

text \<open>
  The columns of a job row that the operations below read or write. File names and
  paths, the media duration, the detected language and the three timestamps are written
  next to them by the same code and are left out.
\<close>

record Job =
  job_id :: string
  batch_id :: "string option"
  language :: string
  model_id :: "string option"
  diarization_model_id :: "string option"
  tts_model_id :: "string option"
  enable_diarization :: bool
  enable_tts :: bool
  priority :: int
  queue_position :: "int option"
  status :: JobStatus
  progress :: real
  error_message :: "string option"

text \<open>
  The terminal statuses of the specification. An exception is a value: an
  \<open>HTTPException\<close> with its status code and detail, or any other exception with the
  text \<open>str(e)\<close> gives for it.
\<close>

definition terminal :: "JobStatus \<Rightarrow> bool" where
  "terminal st = (st = COMPLETED \<or> st = FAILED \<or> st = CANCELLED)"

datatype error = HTTPException nat string | Raised string

text \<open>A freshly created job, as \<open>create_job\<close> and \<open>create_batch\<close> insert it, up to its status.\<close>

definition new_job :: "string \<Rightarrow> string option \<Rightarrow> JobStatus \<Rightarrow> Job" where
  "new_job jid bid st =
     \<lparr>job_id = jid, batch_id = bid, language = ''auto'', model_id = None,
      diarization_model_id = None, tts_model_id = None, enable_diarization = False,
      enable_tts = False, priority = 5, queue_position = None, status = st, progress = 0,
      error_message = None\<rparr>"

section \<open>Queue reorder (api/queue.py)\<close>

text \<open>
  The jobs table is a map from the primary key to the row. \<open>batch_reorder_queue\<close> loads
  the listed rows into \<open>jobs_map\<close>, checks every listed id in order, then walks the list
  again and writes priority and queue position; the commit writes the changed rows back.
  The function returns its response or the exception raised, together with the table as
  the call leaves it.
\<close>

fun verify_reorderable :: "(string \<rightharpoonup> Job) \<Rightarrow> string list \<Rightarrow> error option" where
  "verify_reorderable jobs_map [] = None"
| "verify_reorderable jobs_map (jid # rest) =
     (case jobs_map jid of
        None \<Rightarrow> Some (HTTPException 404 (''Job '' @ jid @ '' not found''))
      | Some job \<Rightarrow>
          if status job \<notin> set [PENDING, QUEUED]
          then Some (HTTPException 400
                 (''Job '' @ jid @ '' is not in a reorderable state (status: ''
                  @ status_value (status job) @ '')''))
          else verify_reorderable jobs_map rest)"

fun update_priorities :: "nat \<Rightarrow> string list \<Rightarrow> (string \<rightharpoonup> Job) \<Rightarrow> error + (string \<rightharpoonup> Job)" where
  "update_priorities position [] jobs_map = Inr jobs_map"
| "update_priorities position (jid # rest) jobs_map =
     (case jobs_map jid of
        None \<Rightarrow> Inl (Raised (CHR 0x27 # jid @ [CHR 0x27]))
      | Some job \<Rightarrow>
          update_priorities (position + 1) rest
            (jobs_map(jid \<mapsto> job\<lparr>priority := min (int position + 1) 10,
                                    queue_position := Some (int position + 1)\<rparr>)))"

record ReorderResponse =
  message :: string
  jobs_updated :: nat

definition batch_reorder_queue ::
  "string list \<Rightarrow> (string \<rightharpoonup> Job) \<Rightarrow> (error + ReorderResponse) \<times> (string \<rightharpoonup> Job)" where
  "batch_reorder_queue job_ids jobs =
     (if job_ids = [] then (Inl (HTTPException 400 ''job_ids list cannot be empty''), jobs)
      else let jobs_map = jobs |` set job_ids in
        case verify_reorderable jobs_map job_ids of
          Some e \<Rightarrow> (Inl e, jobs)
        | None \<Rightarrow>
            (case update_priorities 0 job_ids jobs_map of
               Inl e \<Rightarrow> (Inl e, jobs)
             | Inr jobs_map' \<Rightarrow>
                 (Inr \<lparr>message = ''Queue reordered'', jobs_updated = length job_ids\<rparr>,
                  jobs ++ jobs_map')))"

text \<open>The precondition of the reorder, and the position that counts for a listed job.\<close>

definition reorderable :: "(string \<rightharpoonup> Job) \<Rightarrow> string \<Rightarrow> bool" where
  "reorderable jobs jid =
     (case jobs jid of None \<Rightarrow> False | Some job \<Rightarrow> status job = QUEUED \<or> status job = PENDING)"

definition reordered :: "Job \<Rightarrow> nat \<Rightarrow> Job" where
  "reordered job pos = job\<lparr>priority := min (int pos) 10, queue_position := Some (int pos)\<rparr>"

section \<open>Batch aggregate (api/batches.py)\<close>

text \<open>
  The columns of a batch row (name and creation time left out); \<open>batch_completed_at\<close>
  records whether the completion time has been written. \<open>create_batch\<close> refuses fewer
  than two files, inserts the batch with \<open>total_files\<close> the number of files and one queued
  job per file; the job ids are the keys the store hands out, given here with the files.
\<close>

record JobBatch =
  batch_key :: string
  total_files :: int
  completed_files :: int
  failed_files :: int
  batch_status :: JobStatus
  batch_progress :: real
  batch_completed_at :: bool

definition create_batch :: "string \<Rightarrow> string list \<Rightarrow> error + (JobBatch \<times> Job list)" where
  "create_batch bid files =
     (if length files < 2 then Inl (HTTPException 400 ''Batch requires at least 2 files'')
      else Inr (\<lparr>batch_key = bid, total_files = int (length files), completed_files = 0,
                 failed_files = 0, batch_status = PENDING, batch_progress = 0,
                 batch_completed_at = False\<rparr>,
                map (\<lambda>jid. new_job jid (Some bid) QUEUED) files))"

text \<open>
  \<open>update_batch_progress\<close> on the batch row and the rows of its member jobs
  (\<open>batch.jobs\<close>). The counters are assigned before the division, so they are changed on
  the row object also when the division raises; the function returns the exception, if
  any, and the row object as it leaves it.
\<close>

definition update_batch_progress :: "JobBatch \<Rightarrow> Job list \<Rightarrow> error option \<times> JobBatch" where
  "update_batch_progress batch jobs =
     (let completed = int (length (filter (\<lambda>j. status j = COMPLETED) jobs));
          failed = int (length (filter (\<lambda>j. status j = FAILED) jobs));
          batch1 = batch\<lparr>completed_files := completed, failed_files := failed\<rparr>
      in if total_files batch = 0 then (Some (Raised ''division by zero''), batch1)
         else
           let batch2 = batch1\<lparr>batch_progress :=
                          real_of_int (completed + failed) / real_of_int (total_files batch) * 100\<rparr>
           in if completed + failed \<ge> total_files batch
              then (None, batch2\<lparr>batch_status := (if failed = 0 then COMPLETED else FAILED),
                                  batch_completed_at := True\<rparr>)
              else if completed + failed > 0
              then (None, batch2\<lparr>batch_status := PROCESSING\<rparr>)
              else (None, batch2))"

section \<open>Timing sync: combining the stretched segments (workers/sync\_worker.py)\<close>


















section \<open>Model download (api/models.py)\<close>

text \<open>
  The columns of a model row that the download reads and writes; \<open>download_error\<close> is
  the entry of that name in the row's \<open>info\<close>. The download handler answers a request and
  may add \<open>download_model_task\<close> to the background tasks; the task, once started, sets the
  progress to zero and calls the underlying fetch (\<open>download_model_for_engine\<close>), and
  when the fetch returns or raises it writes the outcome to the row. The state of the
  service holds the table, the tasks added and not yet started, the tasks whose fetch is
  under way, and the fetches made so far. The progress callback handed to the fetch
  builds a coroutine that is never awaited, so it writes nothing.
\<close>

record Model =
  model_name :: string
  is_default :: bool
  is_downloaded :: bool
  local_path :: "string option"
  download_progress :: "real option"
  download_error :: "string option"









section \<open>The pipeline of one job (services/background\_tasks.py, api/jobs.py)\<close>

text \<open>
  Truthiness of an optional string, as in \<open>if job.batch_id:\<close>; the decimal text of an
  integer, as an f-string prints it; \<open>str.strip()\<close>.
\<close>

definition py_truthy :: "string option \<Rightarrow> bool" where
  "py_truthy v = (case v of None \<Rightarrow> False | Some s \<Rightarrow> s \<noteq> [])"

definition str_int :: "int \<Rightarrow> string" where
  "str_int n = (if n < 0 then CHR ''-'' # str_nat (nat (- n)) else str_nat (nat n))"

definition py_strip :: "string \<Rightarrow> string" where
  "py_strip s = rev (dropWhile py_isspace (rev (dropWhile py_isspace s)))"

text \<open>
  An event is the payload \<open>broadcast_progress\<close> hands to the connection manager. A stored
  segment carries its index, times, text and speaker. The session of a run holds the job
  object, the job rows written by each commit so far (oldest first, starting with the row
  as it was loaded), the events broadcast so far, the transcript and its segments, and
  the batch row of the job, if there is one.
\<close>

record Event =
  ev_job :: string
  ev_stage :: string
  ev_progress :: real
  ev_message :: string

record TranscriptSegment =
  ts_index :: nat
  ts_start :: real
  ts_end :: real
  ts_text :: string
  ts_speaker :: "string option"

record Session =
  s_job :: Job
  s_stored :: "Job list"
  s_events :: "Event list"
  s_transcript :: "Transcript option"
  s_segments :: "TranscriptSegment list"
  s_batch :: "JobBatch option"

text \<open>
  What the collaborators outside the pipeline do during the run, each of which may
  raise (an exception is the text \<open>str(e)\<close> gives): the model rows found by id and the
  default model of each type, the audio extraction before transcription, the speech
  recogniser (it raises at once, or yields segments and then possibly raises), the
  writing of the output files, the audio extraction before diarization, the diarization
  pipeline, the speech synthesiser, the concatenation of the synthesised audio, and the
  other member jobs of the batch as the batch recomputation reads them.
\<close>

record WhisperRun =
  w_segments :: "Seg list"
  w_error :: "string option"
  w_language :: string
  w_duration :: real

record Env =
  model_by_id :: "string \<rightharpoonup> Model"
  default_model :: "string \<rightharpoonup> Model"
  extract_audio_error :: "string option"
  stt_adapter :: "string + WhisperRun"
  output_files_error :: "string option"
  diar_audio_error :: "string option"
  diar_adapter :: "string + DSeg list"
  tts_adapter :: "string option"
  combine_audio_error :: "string option"
  batch_others :: "Job list"

definition broadcast_progress :: "real \<Rightarrow> string \<Rightarrow> string \<Rightarrow> Session \<Rightarrow> Session" where
  "broadcast_progress pr stage msg s =
     s\<lparr>s_events := s_events s @
          [\<lparr>ev_job = job_id (s_job s), ev_stage = stage, ev_progress = pr, ev_message = msg\<rparr>]\<rparr>"

definition commit :: "Session \<Rightarrow> Session" where
  "commit s = s\<lparr>s_stored := s_stored s @ [s_job s]\<rparr>"

definition refresh :: "Session \<Rightarrow> Session" where
  "refresh s = (case rev (s_stored s) of [] \<Rightarrow> s | row # older \<Rightarrow> s\<lparr>s_job := row\<rparr>)"

definition set_status :: "JobStatus \<Rightarrow> Session \<Rightarrow> Session" where
  "set_status st s = s\<lparr>s_job := (s_job s)\<lparr>status := st\<rparr>\<rparr>"

definition find_model :: "Env \<Rightarrow> string option \<Rightarrow> string \<Rightarrow> Model option" where
  "find_model env mid mtype =
     (let model = (case mid of None \<Rightarrow> None
                   | Some i \<Rightarrow> if i \<noteq> [] then model_by_id env i else None)
      in case model of Some m \<Rightarrow> Some m | None \<Rightarrow> default_model env mtype)"

text \<open>
  \<open>transcribe_faster_whisper\<close>: one progress callback per segment yielded, then the
  segments with their text stripped and the info, unless the recogniser raised.
\<close>

definition transcribe_faster_whisper :: "string + WhisperRun \<Rightarrow> real list \<times> (string + Seg list \<times> Info)" where
  "transcribe_faster_whisper adapter =
     (case adapter of
        Inl msg \<Rightarrow> ([], Inl msg)
      | Inr run \<Rightarrow>
          (map (\<lambda>seg. min (seg_end seg / (if w_duration run = 0 then 1 else w_duration run) * 100) 100)
               (w_segments run),
           case w_error run of
             Some msg \<Rightarrow> Inl msg
           | None \<Rightarrow> Inr (map (\<lambda>seg. seg\<lparr>seg_text := py_strip (seg_text seg)\<rparr>) (w_segments run),
                          \<lparr>info_language = Some (w_language run),
                           info_duration = Some (w_duration run)\<rparr>)))"

definition progress_cb :: "real \<Rightarrow> Session \<Rightarrow> Session" where
  "progress_cb p s =
     broadcast_progress (10 + p * (1 / 2)) ''transcribing''
       (''Transcribing: '' @ str_int (py_int p) @ ''%'') s"

definition run_transcription :: "Env \<Rightarrow> Session \<Rightarrow> string option \<times> Session" where
  "run_transcription env s =
     (case find_model env (model_id (s_job s)) ''whisper'' of
        None \<Rightarrow> (Some ''No STT model available. Please register and download a model first.'', s)
      | Some model \<Rightarrow>
          if \<not> is_downloaded model
          then (Some (''Model '' @ [CHR 0x27] @ model_name model @ [CHR 0x27]
                      @ '' is not downloaded. Please download it first.''), s)
          else case extract_audio_error env of
            Some msg \<Rightarrow> (Some msg, s)
          | None \<Rightarrow>
              let result = transcribe_faster_whisper (stt_adapter env);
                  s1 = foldl (\<lambda>s p. progress_cb p s) s (fst result)
              in case snd result of
                   Inl msg \<Rightarrow> (Some msg, s1)
                 | Inr (segs, info) \<Rightarrow>
                     let s2 = commit (s1\<lparr>s_transcript :=
                                Some (new_transcript (job_id (s_job s1)) (language (s_job s1)) info segs)\<rparr>);
                         s3 = s2\<lparr>s_segments :=
                                map (\<lambda>(i, seg). \<lparr>ts_index = i, ts_start = seg_start seg,
                                        ts_end = seg_end seg, ts_text = seg_text seg,
                                        ts_speaker = None\<rparr>) (enumerate 0 segs),
                                 s_job := (s_job s2)\<lparr>progress := 55\<rparr>\<rparr>
                     in case output_files_error env of
                          Some msg \<Rightarrow> (Some msg, s3)
                        | None \<Rightarrow> (None, commit s3))"

definition assign_speakers :: "DSeg list \<Rightarrow> TranscriptSegment list \<Rightarrow> TranscriptSegment list" where
  "assign_speakers diarization segs =
     map (\<lambda>seg. seg\<lparr>ts_speaker := find_speaker_for_segment diarization (ts_start seg) (ts_end seg)\<rparr>) segs"

definition count_speakers :: "TranscriptSegment list \<Rightarrow> nat" where
  "count_speakers segs = length (remdups (filter (\<lambda>sp. py_truthy sp) (map ts_speaker segs)))"

definition run_diarization :: "Env \<Rightarrow> Session \<Rightarrow> string option \<times> Session" where
  "run_diarization env s =
     (case find_model env (diarization_model_id (s_job s)) ''diarization'' of
        None \<Rightarrow> (None, broadcast_progress 75 ''diarizing'' ''No diarization model - skipping'' s)
      | Some model \<Rightarrow>
          if \<not> is_downloaded model
          then (None, broadcast_progress 75 ''diarizing''
                        ''Diarization model not downloaded - skipping'' s)
          else
            let s1 = broadcast_progress 62 ''diarizing'' ''Running pyannote diarization...'' s
            in case diar_audio_error env of
                 Some msg \<Rightarrow> (Some msg, s1)
               | None \<Rightarrow>
                   (case diar_adapter env of
                      Inl msg \<Rightarrow>
                        (None, broadcast_progress 75 ''diarizing''
                                 (''Diarization failed: '' @ take 50 msg) s1)
                    | Inr diarization \<Rightarrow>
                        let s2 = broadcast_progress 70 ''diarizing''
                                   ''Assigning speakers to segments...'' s1
                        in case s_transcript s2 of
                             None \<Rightarrow> (Some ''name 'speakers' is not defined'', s2)
                           | Some transcript \<Rightarrow>
                               let segs = assign_speakers diarization (s_segments s2);
                                   s3 = commit (s2\<lparr>s_segments := segs,
                                            s_transcript := Some (transcript\<lparr>speaker_count :=
                                               Some (count_speakers segs)\<rparr>)\<rparr>)
                               in (None, broadcast_progress 75 ''diarizing''
                                     (''Identified '' @ str_int (int (count_speakers segs))
                                      @ '' speakers'') s3)))"

definition run_tts :: "Env \<Rightarrow> Session \<Rightarrow> string option \<times> Session" where
  "run_tts env s =
     (case find_model env (tts_model_id (s_job s)) ''tts'' of
        None \<Rightarrow> (None, broadcast_progress 95 ''generating_tts'' ''No TTS model - skipping'' s)
      | Some model \<Rightarrow>
          if \<not> is_downloaded model
          then (None, broadcast_progress 95 ''generating_tts''
                        ''TTS model not downloaded - skipping'' s)
          else
            let s1 = broadcast_progress 82 ''generating_tts'' ''Loading TTS model...'' s
            in case s_transcript s1 of
                 None \<Rightarrow> (None, broadcast_progress 95 ''generating_tts''
                                   ''No transcript for TTS - skipping'' s1)
               | Some transcript \<Rightarrow>
                   let s2 = broadcast_progress 85 ''generating_tts''
                              (''Synthesizing '' @ str_int (int (length (s_segments s1)))
                               @ '' segments...'') s1
                   in case tts_adapter env of
                        Some msg \<Rightarrow>
                          (None, broadcast_progress 95 ''generating_tts''
                                   (''TTS failed: '' @ take 50 msg) s2)
                      | None \<Rightarrow>
                          let s3 = broadcast_progress 92 ''generating_tts''
                                     ''Combining audio segments...'' s2
                          in case combine_audio_error env of
                               Some msg \<Rightarrow> (Some msg, s3)
                             | None \<Rightarrow> (None, broadcast_progress 95 ''generating_tts''
                                                  ''TTS complete'' (commit s3)))"

text \<open>
  The recomputation of the batch as \<open>process_job_async\<close> calls it: only for a job with a
  batch id, and only when the batch row is found; the members are this job's row and the
  other members.
\<close>

definition batch_step :: "Env \<Rightarrow> Session \<Rightarrow> string option \<times> Session" where
  "batch_step env s =
     (if py_truthy (batch_id (s_job s))
      then case s_batch s of
             None \<Rightarrow> (None, s)
           | Some batch \<Rightarrow>
               (case update_batch_progress batch (s_job s # batch_others env) of
                  (None, batch') \<Rightarrow> (None, s\<lparr>s_batch := Some batch'\<rparr>)
                | (Some e, batch') \<Rightarrow>
                    (Some (case e of Raised msg \<Rightarrow> msg | HTTPException code msg \<Rightarrow> msg),
                     s\<lparr>s_batch := Some batch'\<rparr>))
      else (None, s))"

text \<open>
  The three stages of the \<open>try\<close> block, each with the status change, commit and
  broadcast that introduce it, and the block itself with its completion.
\<close>

definition transcribe_stage :: "Env \<Rightarrow> Session \<Rightarrow> string option \<times> Session" where
  "transcribe_stage env s =
     run_transcription env
       (broadcast_progress 5 ''transcribing'' ''Transcribing audio...''
          (commit (set_status TRANSCRIBING s)))"

definition diarize_stage :: "Env \<Rightarrow> Session \<Rightarrow> string option \<times> Session" where
  "diarize_stage env s =
     (if enable_diarization (s_job s)
      then run_diarization env
             (broadcast_progress 60 ''diarizing'' ''Identifying speakers...''
                (commit (set_status DIARIZING s)))
      else (None, s))"

definition tts_stage :: "Env \<Rightarrow> Session \<Rightarrow> string option \<times> Session" where
  "tts_stage env s =
     (if enable_tts (s_job s)
      then run_tts env
             (broadcast_progress 80 ''generating_tts'' ''Synthesizing speech...''
                (commit (set_status SYNTHESIZING s)))
      else (None, s))"

definition complete_stage :: "Env \<Rightarrow> Session \<Rightarrow> string option \<times> Session" where
  "complete_stage env s =
     (let s1 = refresh s;
          s2 = commit (s1\<lparr>s_job := (s_job s1)\<lparr>status := COMPLETED, progress := 100\<rparr>\<rparr>)
      in case batch_step env s2 of
           (Some msg, s3) \<Rightarrow> (Some msg, s3)
         | (None, s3) \<Rightarrow> (None, broadcast_progress 100 ''completed'' ''Job completed!'' s3))"

definition try_block :: "Env \<Rightarrow> Session \<Rightarrow> string option \<times> Session" where
  "try_block env s =
     (let s1 = broadcast_progress 0 ''processing'' ''Starting job...''
                 (commit (set_status PROCESSING s))
      in case transcribe_stage env s1 of
           (Some msg, s2) \<Rightarrow> (Some msg, s2)
         | (None, s2) \<Rightarrow>
             (case diarize_stage env s2 of
                (Some msg, s3) \<Rightarrow> (Some msg, s3)
              | (None, s3) \<Rightarrow>
                  (case tts_stage env s3 of
                     (Some msg, s4) \<Rightarrow> (Some msg, s4)
                   | (None, s4) \<Rightarrow> complete_stage env s4)))"

text \<open>
  The \<open>except\<close> block: the job is reloaded, marked failed with the message, committed;
  the batch is recomputed; the failure is broadcast with progress 0; the exception is
  raised again. An exception from the batch recomputation leaves the block at once.
\<close>

datatype RunResult = JobNotFound | JobCompleted | JobRaised string

definition except_block :: "Env \<Rightarrow> string \<Rightarrow> Session \<Rightarrow> RunResult \<times> Session" where
  "except_block env msg s =
     (let s1 = refresh s;
          s2 = commit (s1\<lparr>s_job := (s_job s1)\<lparr>status := FAILED, error_message := Some msg\<rparr>\<rparr>)
      in case batch_step env s2 of
           (Some msg', s3) \<Rightarrow> (JobRaised msg', s3)
         | (None, s3) \<Rightarrow> (JobRaised msg, broadcast_progress 0 ''failed'' msg s3))"

definition start_session :: "Job \<Rightarrow> JobBatch option \<Rightarrow> Session" where
  "start_session row batch =
     \<lparr>s_job = row, s_stored = [row], s_events = [], s_transcript = None, s_segments = [],
      s_batch = batch\<rparr>"

definition process_job_async :: "Env \<Rightarrow> Job option \<Rightarrow> JobBatch option \<Rightarrow> RunResult \<times> Session option" where
  "process_job_async env row batch =
     (case row of
        None \<Rightarrow> (JobNotFound, None)
      | Some j \<Rightarrow>
          (case try_block env (start_session j batch) of
             (None, s) \<Rightarrow> (JobCompleted, Some s)
           | (Some msg, s) \<Rightarrow>
               (case except_block env msg s of (r, s') \<Rightarrow> (r, Some s'))))"

text \<open>
  \<open>delete_job\<close>: a job still queued, processing or transcribing is marked cancelled; the
  row is then deleted in the same transaction. The function returns the table without
  the row, and the row as it was when deleted.
\<close>

definition delete_job :: "string \<Rightarrow> (string \<rightharpoonup> Job) \<Rightarrow> (error + Job) \<times> (string \<rightharpoonup> Job)" where
  "delete_job jid jobs =
     (case jobs jid of
        None \<Rightarrow> (Inl (HTTPException 404 ''Job not found''), jobs)
      | Some j \<Rightarrow>
          (Inr (if status j \<in> set [QUEUED, PROCESSING, TRANSCRIBING]
                then j\<lparr>status := CANCELLED\<rparr> else j),
           jobs(jid := None)))"


text \<open>
  Notions for the properties of a run. A job row is live when its status is not terminal
  and its progress is not 100; a session is live when its job object and every row it
  has written are. A batch is safe for recomputation when it has at least one file, as
  every batch made by \<open>create_batch\<close> has. \<open>started\<close> is the session as the first stage
  finds it, and \<open>progress_values\<close> the progress values published so far, in order.
\<close>

definition live_row :: "Job \<Rightarrow> bool" where
  "live_row row = (\<not> terminal (status row) \<and> progress row \<noteq> 100)"

definition live :: "Session \<Rightarrow> bool" where
  "live s = (live_row (s_job s) \<and> list_all live_row (s_stored s) \<and> s_stored s \<noteq> [])"

definition batch_safe :: "JobBatch option \<Rightarrow> bool" where
  "batch_safe b = (case b of None \<Rightarrow> True | Some batch \<Rightarrow> total_files batch \<noteq> 0)"

definition started :: "Job \<Rightarrow> JobBatch option \<Rightarrow> Session" where
  "started row batch =
     broadcast_progress 0 ''processing'' ''Starting job...''
       (commit (set_status PROCESSING (start_session row batch)))"

definition progress_values :: "Session \<Rightarrow> real list" where
  "progress_values s = map ev_progress (s_events s)"

definition stages_published :: "Session \<Rightarrow> string set" where
  "stages_published s = ev_stage ` set (s_events s)"

text \<open>
  \<open>below b s\<close>: the progress values published so far are non-decreasing and none exceeds
  \<open>b\<close>. \<open>failed_with msg s\<close>: the run has ended with the job failed, \<open>msg\<close> captured as its
  error message and written to the store, and the failure event published last. The
  recogniser is orderly when the end times of the segments it yields are non-negative
  and non-decreasing and the duration it reports is not negative.
\<close>

definition below :: "real \<Rightarrow> Session \<Rightarrow> bool" where
  "below b s = (sorted (progress_values s) \<and> list_all (\<lambda>x. x \<le> b) (progress_values s))"

definition failed_with :: "string \<Rightarrow> Session \<Rightarrow> bool" where
  "failed_with msg s =
     (status (s_job s) = FAILED \<and> error_message (s_job s) = Some msg \<and>
      s_stored s \<noteq> [] \<and> last (s_stored s) = s_job s \<and>
      s_events s \<noteq> [] \<and>
      last (s_events s) = \<lparr>ev_job = job_id (s_job s), ev_stage = ''failed'', ev_progress = 0,
                            ev_message = msg\<rparr>)"

definition orderly :: "Env \<Rightarrow> bool" where
  "orderly env =
     (case stt_adapter env of
        Inl msg \<Rightarrow> True
      | Inr run \<Rightarrow> 0 \<le> w_duration run \<and> sorted (map seg_end (w_segments run)) \<and>
                   list_all (\<lambda>seg. 0 \<le> seg_end seg) (w_segments run))"

text \<open>The session once the progress callbacks of the recogniser have been broadcast.\<close>

definition after_callbacks :: "Env \<Rightarrow> Session \<Rightarrow> Session" where
  "after_callbacks env s =
     foldl (\<lambda>s p. progress_cb p s) s (fst (transcribe_faster_whisper (stt_adapter env)))"

text \<open>
  The sessions between the stages of a run, and what it takes for a stage to have a
  model it can use: the model found for it is downloaded.
\<close>

definition after_transcribe :: "Env \<Rightarrow> Job \<Rightarrow> JobBatch option \<Rightarrow> Session" where
  "after_transcribe env row batch = snd (transcribe_stage env (started row batch))"

definition after_diarize :: "Env \<Rightarrow> Job \<Rightarrow> JobBatch option \<Rightarrow> Session" where
  "after_diarize env row batch = snd (diarize_stage env (after_transcribe env row batch))"

definition after_tts :: "Env \<Rightarrow> Job \<Rightarrow> JobBatch option \<Rightarrow> Session" where
  "after_tts env row batch = snd (tts_stage env (after_diarize env row batch))"

definition usable :: "Env \<Rightarrow> string option \<Rightarrow> string \<Rightarrow> bool" where
  "usable env mid mtype =
     (case find_model env mid mtype of None \<Rightarrow> False | Some model \<Rightarrow> is_downloaded model)"

chapter \<open>Properties\<close>

subsection \<open>Subtitle timestamps\<close>





lemma str_nat_length_pos: "0 < length (str_nat n)"
  by (subst str_nat.simps) simp




















subsection \<open>Stored transcript\<close>

lemma token_starts_Nil: "token_starts sp p [] = 0"
  by (simp add: token_starts_def)

lemma token_starts_Cons:
  "token_starts sp p (c # cs) =
     (if \<not> sp c \<and> (case p of None \<Rightarrow> True | Some q \<Rightarrow> sp q) then 1 else 0)
     + token_starts sp (Some c) cs"
  by (simp add: token_starts_def)

lemma split_loop_length:
  "(cur = [] \<longleftrightarrow> (case p of None \<Rightarrow> True | Some q \<Rightarrow> sp q)) \<Longrightarrow>
   length (split_loop sp cur s) = (if cur = [] then 0 else 1) + token_starts sp p s"
proof (induction s arbitrary: cur p)
  case Nil
  then show ?case by (simp add: token_starts_Nil)
next
  case (Cons c cs)
  show ?case
  proof (cases "sp c")
    case True
    have "length (split_loop sp [] cs) = token_starts sp (Some c) cs"
      using Cons.IH[of "[]" "Some c"] True by simp
    then show ?thesis using True by (simp add: token_starts_Cons)
  next
    case False
    have "length (split_loop sp (cur @ [c]) cs) = 1 + token_starts sp (Some c) cs"
      using Cons.IH[of "cur @ [c]" "Some c"] False by simp
    then show ?thesis using False Cons.prems by (simp add: token_starts_Cons)
  qed
qed

lemma py_split_count: "length (py_split s) = token_count s"
  using split_loop_length[where cur = "[]" and p = None and sp = py_isspace and s = s] by (simp add: py_split_def token_count_def)

lemma py_join_Cons: "py_join sep (x # xs) = x @ concat (map (\<lambda>y. sep @ y) xs)"
  by (induction xs arbitrary: x) simp_all

text \<open>
  C10. For every non-empty list of produced segments, the stored transcript's full text
  is the first segment's text followed by a single space and the text of each later
  segment, in segment order, and its word count is the sum over the segments of the
  number of whitespace-separated tokens of the segment's text.
\<close>

theorem transcript_text_and_words:
  assumes "segments \<noteq> []"
  shows "full_text (new_transcript jid lang info segments) =
           seg_text (hd segments) @ concat (map (\<lambda>seg. '' '' @ seg_text seg) (tl segments)) \<and>
         word_count (new_transcript jid lang info segments) =
           (\<Sum>seg \<leftarrow> segments. token_count (seg_text seg))"
proof -
  obtain x xs where s: "segments = x # xs" using assms by (cases segments) auto
  have "full_text (new_transcript jid lang info segments) =
          seg_text x @ concat (map (\<lambda>y. '' '' @ y) (map seg_text xs))"
    unfolding s by (simp add: new_transcript_def py_join_Cons del: py_join.simps)
  then have "full_text (new_transcript jid lang info segments) =
          seg_text (hd segments) @ concat (map (\<lambda>seg. '' '' @ seg_text seg) (tl segments))"
    by (simp add: s comp_def)
  moreover have "word_count (new_transcript jid lang info segments) =
          (\<Sum>seg \<leftarrow> segments. token_count (seg_text seg))"
    by (simp add: new_transcript_def py_split_count)
  ultimately show ?thesis by simp
qed

theorem transcript_text_and_words_witness:
  "[\<lparr>seg_start = 0, seg_end = 1, seg_text = ''Hello  big world''\<rparr>,
    \<lparr>seg_start = 1, seg_end = 2, seg_text = ''again''\<rparr>] \<noteq> [] \<and>
   full_text (new_transcript ''j'' ''en'' \<lparr>info_language = None, info_duration = None\<rparr>
     [\<lparr>seg_start = 0, seg_end = 1, seg_text = ''Hello  big world''\<rparr>,
      \<lparr>seg_start = 1, seg_end = 2, seg_text = ''again''\<rparr>]) = ''Hello  big world again'' \<and>
   word_count (new_transcript ''j'' ''en'' \<lparr>info_language = None, info_duration = None\<rparr>
     [\<lparr>seg_start = 0, seg_end = 1, seg_text = ''Hello  big world''\<rparr>,
      \<lparr>seg_start = 1, seg_end = 2, seg_text = ''again''\<rparr>]) = 4"
  using transcript_text_and_words[of
      "[\<lparr>seg_start = 0, seg_end = 1, seg_text = ''Hello  big world''\<rparr>,
        \<lparr>seg_start = 1, seg_end = 2, seg_text = ''again''\<rparr>]"
      "''j''" "''en''" "\<lparr>info_language = None, info_duration = None\<rparr>"]
  by (simp add: token_count_def token_starts_def py_isspace_def)

subsection \<open>Speaker assignment\<close>





























subsection \<open>Queue reorder\<close>

lemma verify_None_iff:
  "verify_reorderable jm ids = None \<longleftrightarrow> (\<forall>jid \<in> set ids. reorderable jm jid)"
  by (induction ids) (auto simp: reorderable_def split: option.splits)

lemma reorderable_restrict:
  "jid \<in> S \<Longrightarrow> reorderable (jobs |` S) jid = reorderable jobs jid"
  by (simp add: reorderable_def)

lemma update_priorities_result:
  assumes "\<forall>jid \<in> set ids. jm jid \<noteq> None"
  shows "\<exists>jm'. update_priorities n ids jm = Inr jm' \<and>
           (\<forall>jid. jid \<notin> set ids \<longrightarrow> jm' jid = jm jid) \<and>
           (\<forall>i < length ids. ids ! i \<notin> set (drop (Suc i) ids) \<longrightarrow>
               jm' (ids ! i) = map_option (\<lambda>job. reordered job (n + i + 1)) (jm (ids ! i)))"
  using assms
proof (induction ids arbitrary: n jm)
  case Nil
  then show ?case by simp
next
  case (Cons jid rest)
  obtain job where job: "jm jid = Some job" using Cons.prems by auto
  let ?jm1 = "jm(jid \<mapsto> job\<lparr>priority := min (int n + 1) 10, queue_position := Some (int n + 1)\<rparr>)"
  have "\<forall>j \<in> set rest. ?jm1 j \<noteq> None" using Cons.prems by simp
  from Cons.IH[OF this, of "n + 1"]
  obtain jm' where r: "update_priorities (n + 1) rest ?jm1 = Inr jm'"
    and other: "\<forall>j. j \<notin> set rest \<longrightarrow> jm' j = ?jm1 j"
    and listed: "\<forall>i < length rest. rest ! i \<notin> set (drop (Suc i) rest) \<longrightarrow>
               jm' (rest ! i) = map_option (\<lambda>job. reordered job (n + 1 + i + 1)) (?jm1 (rest ! i))"
    by blast
  have res: "update_priorities n (jid # rest) jm = Inr jm'" using job r by simp
  have a: "\<forall>j. j \<notin> set (jid # rest) \<longrightarrow> jm' j = jm j" using other by simp
  have b: "jm' ((jid # rest) ! i) = map_option (\<lambda>job. reordered job (n + i + 1)) (jm ((jid # rest) ! i))"
    if i: "i < length (jid # rest)" and last: "(jid # rest) ! i \<notin> set (drop (Suc i) (jid # rest))" for i
  proof (cases i)
    case 0
    then have "jid \<notin> set rest" using last by simp
    then have "jm' jid = ?jm1 jid" using other by simp
    then show ?thesis using 0 job by (simp add: reordered_def)
  next
    case (Suc k)
    then have k: "k < length rest" and l: "rest ! k \<notin> set (drop (Suc k) rest)"
      using i last by simp_all
    have e: "jm' (rest ! k) = map_option (\<lambda>job. reordered job (n + 1 + k + 1)) (?jm1 (rest ! k))"
      using listed k l by blast
    show ?thesis
    proof (cases "rest ! k = jid")
      case True
      then show ?thesis using e Suc job by (simp add: reordered_def)
    next
      case False
      then show ?thesis using e Suc by simp
    qed
  qed
  show ?case using res a b by blast
qed


text \<open>
  C6. If every listed job exists and is queued or pending, each listed job ends with
  priority \<open>min position 10\<close> and queue position \<open>position\<close>, its 1-based position in
  the list (the last one, should the list name the job more than once), the jobs not
  listed are untouched, and a non-empty list is answered with success. If some listed
  job is missing or not in a reorderable status, the call raises and the table is what
  it was before the call.
\<close>

theorem reorder_all_or_nothing:
  "((\<forall>jid \<in> set job_ids. reorderable jobs jid) \<longrightarrow>
      (job_ids \<noteq> [] \<longrightarrow>
         fst (batch_reorder_queue job_ids jobs) =
           Inr \<lparr>message = ''Queue reordered'', jobs_updated = length job_ids\<rparr>) \<and>
      (\<forall>i < length job_ids. job_ids ! i \<notin> set (drop (Suc i) job_ids) \<longrightarrow>
         snd (batch_reorder_queue job_ids jobs) (job_ids ! i) =
           map_option (\<lambda>job. reordered job (i + 1)) (jobs (job_ids ! i))) \<and>
      (\<forall>jid. jid \<notin> set job_ids \<longrightarrow> snd (batch_reorder_queue job_ids jobs) jid = jobs jid)) \<and>
   ((\<exists>jid \<in> set job_ids. \<not> reorderable jobs jid) \<longrightarrow>
      (\<exists>e. batch_reorder_queue job_ids jobs = (Inl e, jobs)))"
proof (intro conjI impI)
  assume bad: "\<exists>jid \<in> set job_ids. \<not> reorderable jobs jid"
  then have ne: "job_ids \<noteq> []" by auto
  have "\<exists>jid \<in> set job_ids. \<not> reorderable (jobs |` set job_ids) jid"
    using bad by (simp add: reorderable_restrict)
  then have "verify_reorderable (jobs |` set job_ids) job_ids \<noteq> None"
    by (simp add: verify_None_iff)
  then show "\<exists>e. batch_reorder_queue job_ids jobs = (Inl e, jobs)"
    using ne by (auto simp: batch_reorder_queue_def Let_def)
next
  assume ok: "\<forall>jid \<in> set job_ids. reorderable jobs jid"
  let ?jm = "jobs |` set job_ids"
  have v: "verify_reorderable ?jm job_ids = None"
    using ok by (simp add: verify_None_iff reorderable_restrict)
  have "\<forall>jid \<in> set job_ids. ?jm jid \<noteq> None"
    using ok by (auto simp: reorderable_def split: option.splits)
  from update_priorities_result[OF this, of 0]
  obtain jm' where r: "update_priorities 0 job_ids ?jm = Inr jm'"
    and other: "\<forall>jid. jid \<notin> set job_ids \<longrightarrow> jm' jid = ?jm jid"
    and listed: "\<forall>i < length job_ids. job_ids ! i \<notin> set (drop (Suc i) job_ids) \<longrightarrow>
               jm' (job_ids ! i) = map_option (\<lambda>job. reordered job (0 + i + 1)) (?jm (job_ids ! i))"
    by blast
  have res: "job_ids \<noteq> [] \<Longrightarrow> batch_reorder_queue job_ids jobs =
      (Inr \<lparr>message = ''Queue reordered'', jobs_updated = length job_ids\<rparr>, jobs ++ jm')"
    using v r by (simp add: batch_reorder_queue_def Let_def)
  have emp: "job_ids = [] \<Longrightarrow> snd (batch_reorder_queue job_ids jobs) = jobs"
    by (simp add: batch_reorder_queue_def)
  {
    assume "job_ids \<noteq> []"
    then show "fst (batch_reorder_queue job_ids jobs) =
           Inr \<lparr>message = ''Queue reordered'', jobs_updated = length job_ids\<rparr>"
      using res by simp
  }
  show "\<forall>i < length job_ids. job_ids ! i \<notin> set (drop (Suc i) job_ids) \<longrightarrow>
         snd (batch_reorder_queue job_ids jobs) (job_ids ! i) =
           map_option (\<lambda>job. reordered job (i + 1)) (jobs (job_ids ! i))"
  proof (intro allI impI)
    fix i assume i: "i < length job_ids" and l: "job_ids ! i \<notin> set (drop (Suc i) job_ids)"
    then have ne: "job_ids \<noteq> []" by auto
    have m: "job_ids ! i \<in> set job_ids" using i by simp
    have "jm' (job_ids ! i) = map_option (\<lambda>job. reordered job (i + 1)) (jobs (job_ids ! i))"
      using listed i l m by simp
    moreover have "jobs (job_ids ! i) \<noteq> None"
      using ok m by (auto simp: reorderable_def split: option.splits)
    ultimately show "snd (batch_reorder_queue job_ids jobs) (job_ids ! i) =
           map_option (\<lambda>job. reordered job (i + 1)) (jobs (job_ids ! i))"
      using res[OF ne] by (auto simp: map_add_def split: option.splits)
  qed
  show "\<forall>jid. jid \<notin> set job_ids \<longrightarrow> snd (batch_reorder_queue job_ids jobs) jid = jobs jid"
  proof (cases "job_ids = []")
    case True
    then show ?thesis using emp by simp
  next
    case False
    show ?thesis using res[OF False] other by (auto simp: map_add_def split: option.splits)
  qed
qed

text \<open>
  Two queued jobs listed in the order \<open>B, A\<close> take positions 1 and 2; with a running job
  \<open>B\<close> between the queued \<open>A\<close> and \<open>C\<close> the reorder is rejected and nothing changes.
\<close>

theorem reorder_all_or_nothing_witness:
  "snd (batch_reorder_queue [''B'', ''A'']
          [''A'' \<mapsto> new_job ''A'' None QUEUED, ''B'' \<mapsto> new_job ''B'' None QUEUED]) ''A''
     = Some (reordered (new_job ''A'' None QUEUED) 2) \<and>
   (\<exists>e. batch_reorder_queue [''A'', ''B'', ''C'']
          [''A'' \<mapsto> new_job ''A'' None QUEUED, ''B'' \<mapsto> new_job ''B'' None PROCESSING,
           ''C'' \<mapsto> new_job ''C'' None QUEUED]
        = (Inl e, [''A'' \<mapsto> new_job ''A'' None QUEUED, ''B'' \<mapsto> new_job ''B'' None PROCESSING,
           ''C'' \<mapsto> new_job ''C'' None QUEUED]))"
proof -
  let ?j2 = "[''A'' \<mapsto> new_job ''A'' None QUEUED, ''B'' \<mapsto> new_job ''B'' None QUEUED]"
  let ?j3 = "[''A'' \<mapsto> new_job ''A'' None QUEUED, ''B'' \<mapsto> new_job ''B'' None PROCESSING,
           ''C'' \<mapsto> new_job ''C'' None QUEUED]"
  have ok: "\<forall>jid \<in> set [''B'', ''A'']. reorderable ?j2 jid"
    by (simp add: reorderable_def new_job_def)
  have bad: "\<exists>jid \<in> set [''A'', ''B'', ''C'']. \<not> reorderable ?j3 jid"
    by (simp add: reorderable_def new_job_def)
  have t: "\<forall>i < length [''B'', ''A'']. [''B'', ''A''] ! i \<notin> set (drop (Suc i) [''B'', ''A'']) \<longrightarrow>
         snd (batch_reorder_queue [''B'', ''A''] ?j2) ([''B'', ''A''] ! i) =
           map_option (\<lambda>job. reordered job (i + 1)) (?j2 ([''B'', ''A''] ! i))"
    using reorder_all_or_nothing[of "[''B'', ''A'']" ?j2] ok by blast
  have "snd (batch_reorder_queue [''B'', ''A''] ?j2) ([''B'', ''A''] ! 1)
          = map_option (\<lambda>job. reordered job (1 + 1)) (?j2 ([''B'', ''A''] ! 1))"
    by (rule t[rule_format]) simp_all
  then have a: "snd (batch_reorder_queue [''B'', ''A''] ?j2) ''A''
          = Some (reordered (new_job ''A'' None QUEUED) 2)" by (simp add: numeral_2_eq_2)
  have b: "\<exists>e. batch_reorder_queue [''A'', ''B'', ''C''] ?j3 = (Inl e, ?j3)"
    using reorder_all_or_nothing[of "[''A'', ''B'', ''C'']" ?j3] bad by blast
  show ?thesis using a b by blast
qed

subsection \<open>Batch aggregate\<close>

lemma create_batch_members:
  "create_batch bid files = Inr (batch, jobs) \<Longrightarrow>
     int (length jobs) = total_files batch \<and> 2 \<le> total_files batch \<and>
     batch_status batch = PENDING"
  by (auto simp: create_batch_def split: if_splits)

lemma count_two_le:
  "length (filter (\<lambda>j. status j = COMPLETED) jobs) + length (filter (\<lambda>j. status j = FAILED) jobs)
     \<le> length jobs"
proof (induction jobs)
  case Nil
  then show ?case by simp
next
  case (Cons j jobs)
  then show ?case by (cases "status j") simp_all
qed

lemma count_two_eq:
  "length (filter (\<lambda>j. status j = COMPLETED) jobs) + length (filter (\<lambda>j. status j = FAILED) jobs)
     = length jobs \<longleftrightarrow> (\<forall>j \<in> set jobs. status j = COMPLETED \<or> status j = FAILED)"
proof (induction jobs)
  case Nil
  then show ?case by simp
next
  case (Cons j jobs)
  have le: "length (filter (\<lambda>j. status j = COMPLETED) jobs)
            + length (filter (\<lambda>j. status j = FAILED) jobs) \<le> length jobs"
    by (rule count_two_le)
  show ?case
  proof (cases "status j = COMPLETED \<or> status j = FAILED")
    case True
    then show ?thesis using Cons.IH by auto
  next
    case False
    then show ?thesis using le by auto
  qed
qed

text \<open>
  C7 (amended). For a batch with at least one file whose member list holds at most
  \<open>total_files\<close> jobs, the recomputation raises nothing and leaves
  \<open>completed_files + failed_files \<le> total_files\<close>. A batch that was not terminal is given a
  terminal status exactly when all \<open>total_files\<close> members are still there and each of
  them is completed or failed (a cancelled member, or a deleted one, never counts), and
  that status is completed if no member failed, else failed.
\<close>

theorem batch_aggregate:
  assumes "0 < total_files batch" and "int (length jobs) \<le> total_files batch"
  shows "fst (update_batch_progress batch jobs) = None \<and>
         completed_files (snd (update_batch_progress batch jobs))
           + failed_files (snd (update_batch_progress batch jobs)) \<le> total_files batch \<and>
         total_files (snd (update_batch_progress batch jobs)) = total_files batch \<and>
         (\<not> terminal (batch_status batch) \<longrightarrow>
            (terminal (batch_status (snd (update_batch_progress batch jobs))) \<longleftrightarrow>
               int (length jobs) = total_files batch \<and>
               (\<forall>j \<in> set jobs. status j = COMPLETED \<or> status j = FAILED))) \<and>
         (terminal (batch_status (snd (update_batch_progress batch jobs))) \<and>
          \<not> terminal (batch_status batch) \<longrightarrow>
            batch_status (snd (update_batch_progress batch jobs)) =
              (if \<forall>j \<in> set jobs. status j \<noteq> FAILED then COMPLETED else FAILED))"
proof -
  let ?c = "length (filter (\<lambda>j. status j = COMPLETED) jobs)"
  let ?f = "length (filter (\<lambda>j. status j = FAILED) jobs)"
  let ?r = "update_batch_progress batch jobs"
  have le: "?c + ?f \<le> length jobs" by (rule count_two_le)
  have eq: "?c + ?f = length jobs \<longleftrightarrow> (\<forall>j \<in> set jobs. status j = COMPLETED \<or> status j = FAILED)"
    by (rule count_two_eq)
  have f0: "?f = 0 \<longleftrightarrow> (\<forall>j \<in> set jobs. status j \<noteq> FAILED)"
    by (simp add: filter_empty_conv)
  have full: "int ?c + int ?f \<ge> total_files batch \<longleftrightarrow>
              int (length jobs) = total_files batch \<and>
              (\<forall>j \<in> set jobs. status j = COMPLETED \<or> status j = FAILED)"
    using le eq assms(2) by linarith
  have 1: "fst ?r = None" using assms(1) by (simp add: update_batch_progress_def Let_def)
  have 2: "completed_files (snd ?r) + failed_files (snd ?r) \<le> total_files batch"
    using assms le by (simp add: update_batch_progress_def Let_def)
  have 3: "total_files (snd ?r) = total_files batch"
    by (simp add: update_batch_progress_def Let_def)
  have st: "batch_status (snd ?r) =
      (if int ?c + int ?f \<ge> total_files batch then (if ?f = 0 then COMPLETED else FAILED)
       else if 0 < int ?c + int ?f then PROCESSING else batch_status batch)"
    using assms(1) by (simp add: update_batch_progress_def Let_def)
  have 4: "terminal (batch_status (snd ?r)) \<longleftrightarrow>
             int (length jobs) = total_files batch \<and>
             (\<forall>j \<in> set jobs. status j = COMPLETED \<or> status j = FAILED)"
    if "\<not> terminal (batch_status batch)"
    unfolding st full[symmetric] using that by (simp add: terminal_def)
  have 5: "batch_status (snd ?r) = (if \<forall>j \<in> set jobs. status j \<noteq> FAILED then COMPLETED else FAILED)"
    if "terminal (batch_status (snd ?r))" "\<not> terminal (batch_status batch)"
  proof -
    have "int ?c + int ?f \<ge> total_files batch" using 4[OF that(2)] that(1) full by simp
    then show ?thesis unfolding st f0[symmetric] by simp
  qed
  show ?thesis using 1 2 3 4 5 by blast
qed

text \<open>
  A batch of two files both of whose jobs ran, one completing and one failing, ends
  failed with both counters at one.
\<close>

theorem batch_aggregate_witness:
  "batch_status (snd (update_batch_progress
      \<lparr>batch_key = ''b'', total_files = 2, completed_files = 1, failed_files = 0,
       batch_status = PROCESSING, batch_progress = 50, batch_completed_at = False\<rparr>
      [new_job ''x'' (Some ''b'') COMPLETED, new_job ''y'' (Some ''b'') FAILED])) = FAILED \<and>
   completed_files (snd (update_batch_progress
      \<lparr>batch_key = ''b'', total_files = 2, completed_files = 1, failed_files = 0,
       batch_status = PROCESSING, batch_progress = 50, batch_completed_at = False\<rparr>
      [new_job ''x'' (Some ''b'') COMPLETED, new_job ''y'' (Some ''b'') FAILED]))
   + failed_files (snd (update_batch_progress
      \<lparr>batch_key = ''b'', total_files = 2, completed_files = 1, failed_files = 0,
       batch_status = PROCESSING, batch_progress = 50, batch_completed_at = False\<rparr>
      [new_job ''x'' (Some ''b'') COMPLETED, new_job ''y'' (Some ''b'') FAILED])) \<le> 2"
proof -
  let ?b = "\<lparr>batch_key = ''b'', total_files = 2, completed_files = 1, failed_files = 0,
       batch_status = PROCESSING, batch_progress = 50, batch_completed_at = False\<rparr>"
  let ?js = "[new_job ''x'' (Some ''b'') COMPLETED, new_job ''y'' (Some ''b'') FAILED]"
  have h1: "0 < total_files ?b" by simp
  have h2: "int (length ?js) \<le> total_files ?b" by simp
  have h3: "\<not> terminal (batch_status ?b)" by (simp add: terminal_def)
  have h4: "int (length ?js) = total_files ?b \<and>
            (\<forall>j \<in> set ?js. status j = COMPLETED \<or> status j = FAILED)"
    by (simp add: new_job_def)
  have h5: "\<not> (\<forall>j \<in> set ?js. status j \<noteq> FAILED)" by (simp add: new_job_def)
  note t = batch_aggregate[OF h1 h2]
  have "terminal (batch_status (snd (update_batch_progress ?b ?js)))"
    using t h3 h4 by blast
  then have "batch_status (snd (update_batch_progress ?b ?js)) = FAILED"
    using t h3 h5 by presburger
  moreover have "completed_files (snd (update_batch_progress ?b ?js))
      + failed_files (snd (update_batch_progress ?b ?js)) \<le> 2"
    using t by simp
  ultimately show ?thesis by blast
qed

text \<open>
  A batch of two files one of whose jobs was cancelled: whether the cancelled job has
  been deleted from the batch or is still listed, every member is in a terminal status
  and the recomputation leaves the batch in the status \<open>processing\<close>.
\<close>

theorem batch_cancelled_member_counterexample:
  "batch_status (snd (update_batch_progress
      \<lparr>batch_key = ''b'', total_files = 2, completed_files = 0, failed_files = 0,
       batch_status = PENDING, batch_progress = 0, batch_completed_at = False\<rparr>
      [new_job ''x'' (Some ''b'') COMPLETED])) = PROCESSING \<and>
   list_all (\<lambda>j. terminal (status j)) [new_job ''x'' (Some ''b'') COMPLETED] \<and>
   batch_status (snd (update_batch_progress
      \<lparr>batch_key = ''b'', total_files = 2, completed_files = 0, failed_files = 0,
       batch_status = PENDING, batch_progress = 0, batch_completed_at = False\<rparr>
      [new_job ''x'' (Some ''b'') COMPLETED, new_job ''y'' (Some ''b'') CANCELLED])) = PROCESSING \<and>
   list_all (\<lambda>j. terminal (status j))
      [new_job ''x'' (Some ''b'') COMPLETED, new_job ''y'' (Some ''b'') CANCELLED] \<and>
   \<not> terminal PROCESSING"
  by (simp add: update_batch_progress_def new_job_def terminal_def Let_def)

subsection \<open>Timing sync\<close>













subsection \<open>Model download\<close>






subsection \<open>The run of a job\<close>

lemma broadcast_fields [simp]:
  "s_job (broadcast_progress p st m s) = s_job s"
  "s_stored (broadcast_progress p st m s) = s_stored s"
  "s_batch (broadcast_progress p st m s) = s_batch s"
  "s_transcript (broadcast_progress p st m s) = s_transcript s"
  "s_segments (broadcast_progress p st m s) = s_segments s"
  "s_events (broadcast_progress p st m s) =
     s_events s @ [\<lparr>ev_job = job_id (s_job s), ev_stage = st, ev_progress = p, ev_message = m\<rparr>]"
  by (simp_all add: broadcast_progress_def)

lemma commit_fields [simp]:
  "s_job (commit s) = s_job s"
  "s_stored (commit s) = s_stored s @ [s_job s]"
  "s_batch (commit s) = s_batch s"
  "s_transcript (commit s) = s_transcript s"
  "s_segments (commit s) = s_segments s"
  "s_events (commit s) = s_events s"
  by (simp_all add: commit_def)

lemma set_status_fields [simp]:
  "s_job (set_status st s) = (s_job s)\<lparr>status := st\<rparr>"
  "s_stored (set_status st s) = s_stored s"
  "s_batch (set_status st s) = s_batch s"
  "s_transcript (set_status st s) = s_transcript s"
  "s_segments (set_status st s) = s_segments s"
  "s_events (set_status st s) = s_events s"
  by (simp_all add: set_status_def)

lemma callbacks_fields [simp]:
  "s_job (foldl (\<lambda>s p. progress_cb p s) s ps) = s_job s"
  "s_stored (foldl (\<lambda>s p. progress_cb p s) s ps) = s_stored s"
  "s_batch (foldl (\<lambda>s p. progress_cb p s) s ps) = s_batch s"
  "s_transcript (foldl (\<lambda>s p. progress_cb p s) s ps) = s_transcript s"
  "s_segments (foldl (\<lambda>s p. progress_cb p s) s ps) = s_segments s"
  by (induction ps arbitrary: s) (simp_all add: progress_cb_def)

lemma callbacks_events:
  "s_events (foldl (\<lambda>s p. progress_cb p s) s ps) =
     s_events s @ map (\<lambda>p. \<lparr>ev_job = job_id (s_job s), ev_stage = ''transcribing'',
                           ev_progress = 10 + p * (1 / 2),
                           ev_message = ''Transcribing: '' @ str_int (py_int p) @ ''%''\<rparr>) ps"
  by (induction ps arbitrary: s) (simp_all add: progress_cb_def)


lemma after_callbacks_fields [simp]:
  "s_job (after_callbacks env s) = s_job s"
  "s_stored (after_callbacks env s) = s_stored s"
  "s_batch (after_callbacks env s) = s_batch s"
  "s_transcript (after_callbacks env s) = s_transcript s"
  "s_segments (after_callbacks env s) = s_segments s"
  by (simp_all add: after_callbacks_def)

lemma after_callbacks_events:
  "s_events (after_callbacks env s) =
     s_events s @ map (\<lambda>p. \<lparr>ev_job = job_id (s_job s), ev_stage = ''transcribing'',
                           ev_progress = 10 + p * (1 / 2),
                           ev_message = ''Transcribing: '' @ str_int (py_int p) @ ''%''\<rparr>)
                     (fst (transcribe_faster_whisper (stt_adapter env)))"
  by (simp add: after_callbacks_def callbacks_events)

text \<open>The outcomes of \<open>run_transcription\<close>, one per way out of the function.\<close>

lemma run_transcription_cases:
  obtains
    (early) msg where "run_transcription env s = (Some msg, s)"
  | (adapter) msg where "run_transcription env s = (Some msg, after_callbacks env s)"
      "snd (transcribe_faster_whisper (stt_adapter env)) = Inl msg"
  | (files) msg s' where "run_transcription env s = (Some msg, s')"
      "s_events s' = s_events (after_callbacks env s)"
      "s_job s' = (s_job s)\<lparr>progress := 55\<rparr>" "s_stored s' = s_stored s @ [s_job s]"
      "s_batch s' = s_batch s"
  | (returned) s' where "run_transcription env s = (None, s')"
      "s_events s' = s_events (after_callbacks env s)"
      "s_job s' = (s_job s)\<lparr>progress := 55\<rparr>"
      "s_stored s' = s_stored s @ [s_job s, (s_job s)\<lparr>progress := 55\<rparr>]"
      "s_batch s' = s_batch s" "s_transcript s' \<noteq> None"
proof (cases "find_model env (model_id (s_job s)) ''whisper''")
  case None
  then have "run_transcription env s =
      (Some ''No STT model available. Please register and download a model first.'', s)"
    by (simp add: run_transcription_def)
  then show ?thesis by (rule early)
next
  case (Some model)
  show ?thesis
  proof (cases "is_downloaded model")
    case False
    then have "run_transcription env s =
      (Some (''Model '' @ [CHR 0x27] @ model_name model @ [CHR 0x27]
                      @ '' is not downloaded. Please download it first.''), s)"
      using Some by (simp add: run_transcription_def)
    then show ?thesis by (rule early)
  next
    case True
    show ?thesis
    proof (cases "extract_audio_error env")
      case (Some msg)
      then have "run_transcription env s = (Some msg, s)"
        using \<open>find_model env (model_id (s_job s)) ''whisper'' = Some model\<close> True
        by (simp add: run_transcription_def)
      then show ?thesis by (rule early)
    next
      case None
      note pre = \<open>find_model env (model_id (s_job s)) ''whisper'' = Some model\<close> True None
      show ?thesis
      proof (cases "snd (transcribe_faster_whisper (stt_adapter env))")
        case (Inl msg)
        then have "run_transcription env s = (Some msg, after_callbacks env s)"
          using pre by (simp add: run_transcription_def Let_def after_callbacks_def)
        then show ?thesis using Inl by (rule adapter)
      next
        case (Inr res)
        obtain segs info where res: "res = (segs, info)" by (cases res)
        show ?thesis
        proof (cases "output_files_error env")
          case (Some msg)
          have "\<exists>s'. run_transcription env s = (Some msg, s') \<and>
                  s_events s' = s_events (after_callbacks env s) \<and>
                  s_job s' = (s_job s)\<lparr>progress := 55\<rparr> \<and> s_stored s' = s_stored s @ [s_job s] \<and>
                  s_batch s' = s_batch s"
            using pre Inr res Some
            by (simp add: run_transcription_def Let_def after_callbacks_def)
          then show ?thesis using files by blast
        next
          case None
          have "\<exists>s'. run_transcription env s = (None, s') \<and>
                  s_events s' = s_events (after_callbacks env s) \<and>
                  s_job s' = (s_job s)\<lparr>progress := 55\<rparr> \<and>
                  s_stored s' = s_stored s @ [s_job s, (s_job s)\<lparr>progress := 55\<rparr>] \<and>
                  s_batch s' = s_batch s \<and> s_transcript s' \<noteq> None"
            using pre Inr res None
            by (simp add: run_transcription_def Let_def after_callbacks_def)
          then show ?thesis using returned by blast
        qed
      qed
    qed
  qed
qed
lemma below_weaken: "below b s \<Longrightarrow> b \<le> b' \<Longrightarrow> below b' s"
  by (auto simp: below_def list_all_iff)

lemma below_broadcast: "below b s \<Longrightarrow> b \<le> p \<Longrightarrow> below p (broadcast_progress p st m s)"
  by (auto simp: below_def progress_values_def list_all_iff sorted_append)

lemma below_commit [simp]: "below b (commit s) = below b s"
  by (simp add: below_def progress_values_def)

lemma below_set_status [simp]: "below b (set_status st s) = below b s"
  by (simp add: below_def progress_values_def)

lemma below_events_cong: "s_events s' = s_events s \<Longrightarrow> below b s' = below b s"
  by (simp add: below_def progress_values_def)

lemma below_append:
  assumes "below b s" "s_events s' = s_events s @ new"
    "sorted (map ev_progress new)" "\<forall>e \<in> set new. b \<le> ev_progress e \<and> ev_progress e \<le> c"
    "b \<le> c"
  shows "below c s'"
proof -
  have pv: "progress_values s' = progress_values s @ map ev_progress new"
    using assms(2) by (simp add: progress_values_def)
  have old: "sorted (progress_values s)" "\<forall>x \<in> set (progress_values s). x \<le> b"
    using assms(1) by (simp_all add: below_def list_all_iff)
  have cross: "\<forall>x \<in> set (progress_values s). \<forall>y \<in> set (map ev_progress new). x \<le> y"
    using old(2) assms(4) by fastforce
  have "sorted (progress_values s')"
    unfolding pv using old(1) assms(3) cross by (simp add: sorted_append)
  moreover have "\<forall>x \<in> set (progress_values s'). x \<le> c"
    unfolding pv using old(2) assms(4,5) by fastforce
  ultimately show ?thesis by (simp add: below_def list_all_iff)
qed

lemma sorted_map_mono:
  "(\<And>a b. g a \<le> g b \<Longrightarrow> f a \<le> f b) \<Longrightarrow> sorted (map g xs) \<Longrightarrow> sorted (map f xs)"
  for f :: "'a \<Rightarrow> real" and g :: "'a \<Rightarrow> real"
  by (induction xs) auto

lemma callback_values:
  assumes "orderly env" "stt_adapter env = Inr run"
  shows "sorted (map (\<lambda>seg. min (seg_end seg / (if w_duration run = 0 then 1 else w_duration run) * 100) 100)
                    (w_segments run))"
    and "\<forall>seg \<in> set (w_segments run).
           0 \<le> min (seg_end seg / (if w_duration run = 0 then 1 else w_duration run) * 100) 100"
proof -
  define d where "d = (if w_duration run = 0 then 1 else w_duration run)"
  have d: "0 < d" and srt: "sorted (map seg_end (w_segments run))"
    and nn: "\<forall>seg \<in> set (w_segments run). 0 \<le> seg_end seg"
    using assms by (auto simp: orderly_def list_all_iff d_def)
  have mono: "min (seg_end a / d * 100) 100 \<le> min (seg_end b / d * 100) 100"
    if "seg_end a \<le> seg_end b" for a b :: Seg
  proof -
    have "seg_end a / d \<le> seg_end b / d" using that d by (simp add: divide_right_mono)
    then have "seg_end a / d * 100 \<le> seg_end b / d * 100"
      by (rule mult_right_mono) simp
    then show ?thesis by (rule min.mono) simp
  qed
  have "sorted (map (\<lambda>seg. min (seg_end seg / d * 100) 100) (w_segments run))"
    using mono srt by (rule sorted_map_mono)
  then show "sorted (map (\<lambda>seg. min (seg_end seg / (if w_duration run = 0 then 1 else w_duration run) * 100) 100)
                    (w_segments run))"
    by (simp only: d_def)
  have "\<forall>seg \<in> set (w_segments run). 0 \<le> min (seg_end seg / d * 100) 100"
    using nn d by auto
  then show "\<forall>seg \<in> set (w_segments run).
           0 \<le> min (seg_end seg / (if w_duration run = 0 then 1 else w_duration run) * 100) 100"
    by (simp only: d_def)
qed


lemma live_commit: "live s \<Longrightarrow> live (commit s)"
  by (simp add: live_def)

lemma live_broadcast: "live s \<Longrightarrow> live (broadcast_progress p st m s)"
  by (simp add: live_def)

lemma live_set_status: "live s \<Longrightarrow> \<not> terminal st \<Longrightarrow> live (set_status st s)"
  by (simp add: live_def live_row_def)

lemma live_progress_55: "live_row row \<Longrightarrow> live_row (row\<lparr>progress := 55\<rparr>)"
  by (simp add: live_row_def)

lemma stages_broadcast:
  "stages_published (broadcast_progress p st m s) = insert st (stages_published s)"
  by (simp add: stages_published_def)

lemma stages_commit [simp]: "stages_published (commit s) = stages_published s"
  by (simp add: stages_published_def)

lemma stages_set_status [simp]: "stages_published (set_status st s) = stages_published s"
  by (simp add: stages_published_def)

lemma stages_events_cong: "s_events s' = s_events s \<Longrightarrow> stages_published s' = stages_published s"
  by (simp add: stages_published_def)

lemma stages_after_callbacks:
  "stages_published (after_callbacks env s) \<subseteq> insert ''transcribing'' (stages_published s)"
  by (auto simp: stages_published_def after_callbacks_events)

lemma callbacks_range:
  assumes "orderly env"
  shows "sorted (fst (transcribe_faster_whisper (stt_adapter env)))"
    and "\<forall>p \<in> set (fst (transcribe_faster_whisper (stt_adapter env))). 0 \<le> p \<and> p \<le> 100"
proof -
  show "sorted (fst (transcribe_faster_whisper (stt_adapter env)))"
  proof (cases "stt_adapter env")
    case (Inl msg)
    then show ?thesis by (simp add: transcribe_faster_whisper_def)
  next
    case (Inr run)
    then show ?thesis using callback_values(1)[OF assms Inr]
      by (simp add: transcribe_faster_whisper_def)
  qed
  show "\<forall>p \<in> set (fst (transcribe_faster_whisper (stt_adapter env))). 0 \<le> p \<and> p \<le> 100"
  proof (cases "stt_adapter env")
    case (Inl msg)
    then show ?thesis by (simp add: transcribe_faster_whisper_def)
  next
    case (Inr run)
    then show ?thesis using callback_values(2)[OF assms Inr]
      by (simp add: transcribe_faster_whisper_def)
  qed
qed

lemma below_after_callbacks:
  assumes "orderly env" "below b s" "b \<le> 10"
  shows "below 60 (after_callbacks env s)"
proof -
  define ps where "ps = fst (transcribe_faster_whisper (stt_adapter env))"
  define mk where "mk = (\<lambda>p. \<lparr>ev_job = job_id (s_job s), ev_stage = ''transcribing'',
                         ev_progress = 10 + p * (1 / 2),
                         ev_message = ''Transcribing: '' @ str_int (py_int p) @ ''%''\<rparr>)"
  have ev1: "s_events (after_callbacks env s) = s_events s @ map mk ps"
    unfolding ps_def mk_def by (rule after_callbacks_events)
  have ps: "sorted ps" "\<forall>p \<in> set ps. 0 \<le> p \<and> p \<le> 100"
    unfolding ps_def using callbacks_range[OF assms(1)] by blast+
  have pr: "ev_progress (mk p) = 10 + p * (1 / 2)" for p by (simp add: mk_def)
  have "map ev_progress (map mk ps) = map (\<lambda>p. 10 + p * (1 / 2)) ps"
    by (simp add: comp_def pr)
  moreover have "sorted (map (\<lambda>p. p) ps)" using ps(1) by simp
  then have "sorted (map (\<lambda>p. 10 + p * (1 / 2)) ps)"
    by (rule sorted_map_mono[rotated]) simp
  ultimately have srt: "sorted (map ev_progress (map mk ps))" by (simp only:)
  have rng: "\<forall>e \<in> set (map mk ps). b \<le> ev_progress e \<and> ev_progress e \<le> 60"
  proof
    fix e assume "e \<in> set (map mk ps)"
    then obtain p where p: "p \<in> set ps" "e = mk p" by auto
    then have "0 \<le> p \<and> p \<le> 100" using ps(2) by blast
    then show "b \<le> ev_progress e \<and> ev_progress e \<le> 60"
      using assms(3) unfolding p(2) pr by simp
  qed
  show ?thesis
    using assms(2) ev1 srt rng by (rule below_append) (use assms(3) in simp)
qed

text \<open>What every stage keeps: the batch row, liveness, the stage tag, the order of progress.\<close>

lemma run_transcription_contract:
  fixes env s
  defines "s' \<equiv> snd (run_transcription env s)"
  shows "s_batch s' = s_batch s"
    and "live s \<Longrightarrow> live s'"
    and "stages_published s' \<subseteq> insert ''transcribing'' (stages_published s)"
    and "orderly env \<Longrightarrow> below b s \<Longrightarrow> b \<le> 10 \<Longrightarrow> below 60 s'"
proof -
  have "s_batch s' = s_batch s \<and> (live s \<longrightarrow> live s') \<and>
        stages_published s' \<subseteq> insert ''transcribing'' (stages_published s) \<and>
        (orderly env \<and> below b s \<and> b \<le> 10 \<longrightarrow> below 60 s')"
  proof (cases rule: run_transcription_cases[of env s])
    case (early msg)
    then have "s' = s" by (simp add: s'_def)
    then show ?thesis by (auto intro: below_weaken)
  next
    case (adapter msg)
    then have e: "s' = after_callbacks env s" by (simp add: s'_def)
    show ?thesis unfolding e
      using stages_after_callbacks[of env s] below_after_callbacks[of env b s]
      by (simp add: live_def)
  next
    case (files msg t)
    then have e: "s' = t" by (simp add: s'_def)
    have "live s \<Longrightarrow> live t" using files by (simp add: live_def live_progress_55)
    moreover have "stages_published t \<subseteq> insert ''transcribing'' (stages_published s)"
      using stages_after_callbacks[of env s] stages_events_cong[OF files(2)] by simp
    moreover have "orderly env \<and> below b s \<and> b \<le> 10 \<longrightarrow> below 60 t"
      using below_after_callbacks[of env b s] below_events_cong[OF files(2)] by simp
    ultimately show ?thesis unfolding e using files(5) by blast
  next
    case (returned t)
    then have e: "s' = t" by (simp add: s'_def)
    have "live s \<Longrightarrow> live t" using returned by (simp add: live_def live_progress_55)
    moreover have "stages_published t \<subseteq> insert ''transcribing'' (stages_published s)"
      using stages_after_callbacks[of env s] stages_events_cong[OF returned(2)] by simp
    moreover have "orderly env \<and> below b s \<and> b \<le> 10 \<longrightarrow> below 60 t"
      using below_after_callbacks[of env b s] below_events_cong[OF returned(2)] by simp
    ultimately show ?thesis unfolding e using returned(5) by blast
  qed
  then show "s_batch s' = s_batch s" and "live s \<Longrightarrow> live s'"
    and "stages_published s' \<subseteq> insert ''transcribing'' (stages_published s)"
    and "orderly env \<Longrightarrow> below b s \<Longrightarrow> b \<le> 10 \<Longrightarrow> below 60 s'"
    by blast+
qed

lemma run_diarization_events:
  "\<exists>new. s_events (snd (run_diarization env s)) = s_events s @ new \<and>
          sorted (map ev_progress new) \<and>
          (\<forall>e \<in> set new. ev_stage e = ''diarizing'' \<and> 62 \<le> ev_progress e \<and> ev_progress e \<le> 75)"
  by (auto simp: run_diarization_def Let_def split: option.splits sum.splits)

lemma run_tts_events:
  "\<exists>new. s_events (snd (run_tts env s)) = s_events s @ new \<and>
          sorted (map ev_progress new) \<and>
          (\<forall>e \<in> set new. ev_stage e = ''generating_tts'' \<and> 82 \<le> ev_progress e \<and> ev_progress e \<le> 95)"
  by (auto simp: run_tts_def Let_def split: option.splits sum.splits)

lemma run_diarization_contract:
  fixes env s
  defines "s' \<equiv> snd (run_diarization env s)"
  shows "s_batch s' = s_batch s"
    and "live s \<Longrightarrow> live s'"
    and "stages_published s' \<subseteq> insert ''diarizing'' (stages_published s)"
    and "below b s \<Longrightarrow> b \<le> 62 \<Longrightarrow> below 75 s'"
proof -
  obtain new where n: "s_events s' = s_events s @ new" "sorted (map ev_progress new)"
    "\<forall>e \<in> set new. ev_stage e = ''diarizing'' \<and> 62 \<le> ev_progress e \<and> ev_progress e \<le> 75"
    using run_diarization_events[of env s] unfolding s'_def by blast
  show "s_batch s' = s_batch s"
    by (simp add: s'_def run_diarization_def Let_def split: option.splits sum.splits)
  show "live s \<Longrightarrow> live s'"
    by (auto simp: s'_def run_diarization_def Let_def live_def split: option.splits sum.splits)
  show "stages_published s' \<subseteq> insert ''diarizing'' (stages_published s)"
    using n(1,3) by (auto simp: stages_published_def)
  show "below 75 s'" if "below b s" "b \<le> 62"
  proof -
    have lo: "below 62 s" using that by (rule below_weaken)
    have rng: "\<forall>e \<in> set new. 62 \<le> ev_progress e \<and> ev_progress e \<le> 75" using n(3) by blast
    show ?thesis by (rule below_append[OF lo n(1) n(2) rng]) simp
  qed
qed

lemma run_tts_contract:
  fixes env s
  defines "s' \<equiv> snd (run_tts env s)"
  shows "s_batch s' = s_batch s"
    and "live s \<Longrightarrow> live s'"
    and "stages_published s' \<subseteq> insert ''generating_tts'' (stages_published s)"
    and "below b s \<Longrightarrow> b \<le> 82 \<Longrightarrow> below 95 s'"
proof -
  obtain new where n: "s_events s' = s_events s @ new" "sorted (map ev_progress new)"
    "\<forall>e \<in> set new. ev_stage e = ''generating_tts'' \<and> 82 \<le> ev_progress e \<and> ev_progress e \<le> 95"
    using run_tts_events[of env s] unfolding s'_def by blast
  show "s_batch s' = s_batch s"
    by (simp add: s'_def run_tts_def Let_def split: option.splits sum.splits)
  show "live s \<Longrightarrow> live s'"
    by (auto simp: s'_def run_tts_def Let_def live_def split: option.splits sum.splits)
  show "stages_published s' \<subseteq> insert ''generating_tts'' (stages_published s)"
    using n(1,3) by (auto simp: stages_published_def)
  show "below 95 s'" if "below b s" "b \<le> 82"
  proof -
    have lo: "below 82 s" using that by (rule below_weaken)
    have rng: "\<forall>e \<in> set new. 82 \<le> ev_progress e \<and> ev_progress e \<le> 95" using n(3) by blast
    show ?thesis by (rule below_append[OF lo n(1) n(2) rng]) simp
  qed
qed

lemma stage_case:
  "(case t of (Some msg, s) \<Rightarrow> (Some msg, s) | (None, s) \<Rightarrow> f s) =
     (if fst t = None then f (snd t) else t)"
  by (cases t; cases "fst t") auto

lemma refresh_last: "s_stored s \<noteq> [] \<Longrightarrow> refresh s = s\<lparr>s_job := last (s_stored s)\<rparr>"
proof -
  assume ne: "s_stored s \<noteq> []"
  then obtain row older where r: "rev (s_stored s) = row # older" by (cases "rev (s_stored s)") auto
  have "s_stored s = rev older @ [row]" using arg_cong[OF r, of rev] by simp
  then have "last (s_stored s) = row" by simp
  then show ?thesis using r by (simp add: refresh_def)
qed

lemma refresh_fields [simp]:
  "s_stored (refresh s) = s_stored s" "s_events (refresh s) = s_events s"
  "s_batch (refresh s) = s_batch s"
  by (simp_all add: refresh_def split: list.splits)

lemma update_batch_safe: "total_files batch \<noteq> 0 \<Longrightarrow> fst (update_batch_progress batch members) = None"
  by (simp add: update_batch_progress_def Let_def)

lemma batch_step_fields [simp]:
  "s_job (snd (batch_step env s)) = s_job s"
  "s_stored (snd (batch_step env s)) = s_stored s"
  "s_events (snd (batch_step env s)) = s_events s"
  by (simp_all add: batch_step_def split: option.splits prod.splits)

lemma batch_step_safe: "batch_safe (s_batch s) \<Longrightarrow> fst (batch_step env s) = None"
proof (cases "s_batch s")
  case None
  then show ?thesis by (simp add: batch_step_def)
next
  case (Some batch)
  assume "batch_safe (s_batch s)"
  then have "total_files batch \<noteq> 0" using Some by (simp add: batch_safe_def)
  then have "fst (update_batch_progress batch (s_job s # batch_others env)) = None"
    by (rule update_batch_safe)
  then show ?thesis using Some
    by (cases "update_batch_progress batch (s_job s # batch_others env)")
       (simp add: batch_step_def)
qed

lemma complete_stage_unfold:
  "complete_stage env s =
     (let s2 = commit ((refresh s)\<lparr>s_job := (s_job (refresh s))\<lparr>status := COMPLETED, progress := 100\<rparr>\<rparr>)
      in if fst (batch_step env s2) = None
         then (None, broadcast_progress 100 ''completed'' ''Job completed!'' (snd (batch_step env s2)))
         else batch_step env s2)"
  by (simp add: complete_stage_def Let_def stage_case)


lemma complete_stage_safe:
  assumes "s_stored s \<noteq> []" "batch_safe (s_batch s)"
  shows "fst (complete_stage env s) = None"
    and "s_job (snd (complete_stage env s)) = (last (s_stored s))\<lparr>status := COMPLETED, progress := 100\<rparr>"
    and "s_stored (snd (complete_stage env s)) =
           s_stored s @ [(last (s_stored s))\<lparr>status := COMPLETED, progress := 100\<rparr>]"
    and "stages_published (snd (complete_stage env s)) = insert ''completed'' (stages_published s)"
proof -
  let ?s2 = "commit ((refresh s)\<lparr>s_job := (s_job (refresh s))\<lparr>status := COMPLETED, progress := 100\<rparr>\<rparr>)"
  have b: "fst (batch_step env ?s2) = None"
    using assms(2) by (intro batch_step_safe) simp
  have j: "s_job (refresh s) = last (s_stored s)" using assms(1) by (simp add: refresh_last)
  show "fst (complete_stage env s) = None" using b by (simp add: complete_stage_unfold Let_def)
  show "s_job (snd (complete_stage env s)) = (last (s_stored s))\<lparr>status := COMPLETED, progress := 100\<rparr>"
    using b j by (simp add: complete_stage_unfold Let_def)
  show "s_stored (snd (complete_stage env s)) =
           s_stored s @ [(last (s_stored s))\<lparr>status := COMPLETED, progress := 100\<rparr>]"
    using b j by (simp add: complete_stage_unfold Let_def)
  show "stages_published (snd (complete_stage env s)) = insert ''completed'' (stages_published s)"
    using b by (simp add: complete_stage_unfold Let_def stages_published_def)
qed

lemma except_block_unfold:
  "except_block env msg s =
     (let s2 = commit ((refresh s)\<lparr>s_job := (s_job (refresh s))\<lparr>status := FAILED, error_message := Some msg\<rparr>\<rparr>)
      in case fst (batch_step env s2) of
           Some msg' \<Rightarrow> (JobRaised msg', snd (batch_step env s2))
         | None \<Rightarrow> (JobRaised msg, broadcast_progress 0 ''failed'' msg (snd (batch_step env s2))))"
  by (simp add: except_block_def Let_def split: prod.splits option.splits)

lemma except_block_safe:
  assumes "batch_safe (s_batch s)"
  shows "fst (except_block env msg s) = JobRaised msg"
    and "progress_values (snd (except_block env msg s)) = progress_values s @ [0]"
    and "stages_published (snd (except_block env msg s)) = insert ''failed'' (stages_published s)"
    and "s_stored s \<noteq> [] \<Longrightarrow>
           s_job (snd (except_block env msg s)) = (last (s_stored s))\<lparr>status := FAILED, error_message := Some msg\<rparr>"
    and "s_stored s \<noteq> [] \<Longrightarrow>
           s_stored (snd (except_block env msg s)) =
             s_stored s @ [(last (s_stored s))\<lparr>status := FAILED, error_message := Some msg\<rparr>]"
    and "s_stored s \<noteq> [] \<Longrightarrow> failed_with msg (snd (except_block env msg s))"
proof -
  let ?s2 = "commit ((refresh s)\<lparr>s_job := (s_job (refresh s))\<lparr>status := FAILED, error_message := Some msg\<rparr>\<rparr>)"
  have b: "fst (batch_step env ?s2) = None"
    using assms by (intro batch_step_safe) simp
  show "fst (except_block env msg s) = JobRaised msg"
    using b by (simp add: except_block_unfold Let_def)
  show "progress_values (snd (except_block env msg s)) = progress_values s @ [0]"
    using b by (simp add: except_block_unfold Let_def progress_values_def)
  show "stages_published (snd (except_block env msg s)) = insert ''failed'' (stages_published s)"
    using b by (simp add: except_block_unfold Let_def stages_published_def)
  show j: "s_job (snd (except_block env msg s)) = (last (s_stored s))\<lparr>status := FAILED, error_message := Some msg\<rparr>"
    if "s_stored s \<noteq> []"
    using b that by (simp add: except_block_unfold Let_def refresh_last)
  show st: "s_stored (snd (except_block env msg s)) =
             s_stored s @ [(last (s_stored s))\<lparr>status := FAILED, error_message := Some msg\<rparr>]"
    if "s_stored s \<noteq> []"
    using b that by (simp add: except_block_unfold Let_def refresh_last)
  show "failed_with msg (snd (except_block env msg s))" if ne: "s_stored s \<noteq> []"
  proof -
    have "s_events (snd (except_block env msg s)) =
            s_events s @ [\<lparr>ev_job = job_id (last (s_stored s)), ev_stage = ''failed'',
                            ev_progress = 0, ev_message = msg\<rparr>]"
      using b ne by (simp add: except_block_unfold Let_def refresh_last)
    then show ?thesis using j[OF ne] st[OF ne] by (simp add: failed_with_def)
  qed
qed

lemma stored_nonempty:
  "s_stored s \<noteq> [] \<Longrightarrow> s_stored (snd (run_transcription env s)) \<noteq> []"
  "s_stored s \<noteq> [] \<Longrightarrow> s_stored (snd (run_diarization env s)) \<noteq> []"
  "s_stored s \<noteq> [] \<Longrightarrow> s_stored (snd (run_tts env s)) \<noteq> []"
proof -
  show "s_stored (snd (run_transcription env s)) \<noteq> []" if "s_stored s \<noteq> []"
    using that by (cases rule: run_transcription_cases[of env s]) simp_all
  show "s_stored s \<noteq> [] \<Longrightarrow> s_stored (snd (run_diarization env s)) \<noteq> []"
    by (simp add: run_diarization_def Let_def split: option.splits sum.splits)
  show "s_stored s \<noteq> [] \<Longrightarrow> s_stored (snd (run_tts env s)) \<noteq> []"
    by (simp add: run_tts_def Let_def split: option.splits sum.splits)
qed

lemma transcribe_stage_contract:
  fixes env s
  defines "s' \<equiv> snd (transcribe_stage env s)"
  shows "s_batch s' = s_batch s" and "s_stored s' \<noteq> []"
    and "live s \<Longrightarrow> live s'"
    and "stages_published s' \<subseteq> insert ''transcribing'' (stages_published s)"
    and "orderly env \<Longrightarrow> below b s \<Longrightarrow> b \<le> 5 \<Longrightarrow> below 60 s'"
proof -
  let ?e = "broadcast_progress 5 ''transcribing'' ''Transcribing audio...''
              (commit (set_status TRANSCRIBING s))"
  have s': "s' = snd (run_transcription env ?e)" by (simp add: s'_def transcribe_stage_def)
  show "s_batch s' = s_batch s" unfolding s' by (simp add: run_transcription_contract(1))
  show "s_stored s' \<noteq> []" unfolding s' by (rule stored_nonempty(1)) simp
  show "live s'" if "live s"
  proof -
    have "live ?e" using that
      by (intro live_broadcast live_commit live_set_status) (simp_all add: terminal_def)
    then show ?thesis unfolding s' by (rule run_transcription_contract(2))
  qed
  show "stages_published s' \<subseteq> insert ''transcribing'' (stages_published s)"
    unfolding s' using run_transcription_contract(3)[of env ?e]
    by (simp add: stages_broadcast)
  show "below 60 s'" if "orderly env" "below b s" "b \<le> 5"
  proof -
    have "below 5 ?e" using that(2,3) by (intro below_broadcast) simp_all
    then show ?thesis unfolding s' using that(1)
      by (intro run_transcription_contract(4)[where b = 5]) simp_all
  qed
qed

lemma diarize_stage_contract:
  fixes env s
  defines "s' \<equiv> snd (diarize_stage env s)"
  shows "s_batch s' = s_batch s" and "s_stored s \<noteq> [] \<Longrightarrow> s_stored s' \<noteq> []"
    and "live s \<Longrightarrow> live s'"
    and "stages_published s' \<subseteq> insert ''diarizing'' (stages_published s)"
    and "below b s \<Longrightarrow> b \<le> 60 \<Longrightarrow> below 75 s'"
proof -
  have "s_batch s' = s_batch s \<and> (s_stored s \<noteq> [] \<longrightarrow> s_stored s' \<noteq> []) \<and>
        (live s \<longrightarrow> live s') \<and>
        stages_published s' \<subseteq> insert ''diarizing'' (stages_published s) \<and>
        (below b s \<and> b \<le> 60 \<longrightarrow> below 75 s')"
  proof (cases "enable_diarization (s_job s)")
    case False
    then have e: "s' = s" by (simp add: s'_def diarize_stage_def)
    show ?thesis unfolding e by (auto intro: below_weaken)
  next
    case True
    let ?e = "broadcast_progress 60 ''diarizing'' ''Identifying speakers...''
                (commit (set_status DIARIZING s))"
    have s': "s' = snd (run_diarization env ?e)" using True by (simp add: s'_def diarize_stage_def)
    have f1: "s_batch s' = s_batch s" unfolding s' by (simp add: run_diarization_contract(1))
    have f2: "s_stored s' \<noteq> []" unfolding s' by (rule stored_nonempty(2)) simp
    have f3: "live s'" if "live s"
    proof -
      have "live ?e" using that
        by (intro live_broadcast live_commit live_set_status) (simp_all add: terminal_def)
      then show ?thesis unfolding s' by (rule run_diarization_contract(2))
    qed
    have f4: "stages_published s' \<subseteq> insert ''diarizing'' (stages_published s)"
      unfolding s' using run_diarization_contract(3)[of env ?e]
      by (simp add: stages_broadcast)
    have f5: "below 75 s'" if "below b s" "b \<le> 60"
    proof -
      have "below 60 ?e" using that by (intro below_broadcast) simp_all
      then show ?thesis unfolding s'
        by (rule run_diarization_contract(4)) simp
    qed
    show ?thesis using f1 f2 f3 f4 f5 by blast
  qed
  then show "s_batch s' = s_batch s" and "s_stored s \<noteq> [] \<Longrightarrow> s_stored s' \<noteq> []"
    and "live s \<Longrightarrow> live s'"
    and "stages_published s' \<subseteq> insert ''diarizing'' (stages_published s)"
    and "below b s \<Longrightarrow> b \<le> 60 \<Longrightarrow> below 75 s'"
    by blast+
qed

lemma tts_stage_contract:
  fixes env s
  defines "s' \<equiv> snd (tts_stage env s)"
  shows "s_batch s' = s_batch s" and "s_stored s \<noteq> [] \<Longrightarrow> s_stored s' \<noteq> []"
    and "live s \<Longrightarrow> live s'"
    and "stages_published s' \<subseteq> insert ''generating_tts'' (stages_published s)"
    and "below b s \<Longrightarrow> b \<le> 80 \<Longrightarrow> below 95 s'"
proof -
  have "s_batch s' = s_batch s \<and> (s_stored s \<noteq> [] \<longrightarrow> s_stored s' \<noteq> []) \<and>
        (live s \<longrightarrow> live s') \<and>
        stages_published s' \<subseteq> insert ''generating_tts'' (stages_published s) \<and>
        (below b s \<and> b \<le> 80 \<longrightarrow> below 95 s')"
  proof (cases "enable_tts (s_job s)")
    case False
    then have e: "s' = s" by (simp add: s'_def tts_stage_def)
    show ?thesis unfolding e by (auto intro: below_weaken)
  next
    case True
    let ?e = "broadcast_progress 80 ''generating_tts'' ''Synthesizing speech...''
                (commit (set_status SYNTHESIZING s))"
    have s': "s' = snd (run_tts env ?e)" using True by (simp add: s'_def tts_stage_def)
    have f1: "s_batch s' = s_batch s" unfolding s' by (simp add: run_tts_contract(1))
    have f2: "s_stored s' \<noteq> []" unfolding s' by (rule stored_nonempty(3)) simp
    have f3: "live s'" if "live s"
    proof -
      have "live ?e" using that
        by (intro live_broadcast live_commit live_set_status) (simp_all add: terminal_def)
      then show ?thesis unfolding s' by (rule run_tts_contract(2))
    qed
    have f4: "stages_published s' \<subseteq> insert ''generating_tts'' (stages_published s)"
      unfolding s' using run_tts_contract(3)[of env ?e]
      by (simp add: stages_broadcast)
    have f5: "below 95 s'" if "below b s" "b \<le> 80"
    proof -
      have "below 80 ?e" using that by (intro below_broadcast) simp_all
      then show ?thesis unfolding s'
        by (rule run_tts_contract(4)) simp
    qed
    show ?thesis using f1 f2 f3 f4 f5 by blast
  qed
  then show "s_batch s' = s_batch s" and "s_stored s \<noteq> [] \<Longrightarrow> s_stored s' \<noteq> []"
    and "live s \<Longrightarrow> live s'"
    and "stages_published s' \<subseteq> insert ''generating_tts'' (stages_published s)"
    and "below b s \<Longrightarrow> b \<le> 80 \<Longrightarrow> below 95 s'"
    by blast+
qed

lemma started_facts:
  "s_batch (started j batch) = batch"
  "s_stored (started j batch) = [j, j\<lparr>status := PROCESSING\<rparr>]"
  "stages_published (started j batch) = {''processing''}"
  "progress_values (started j batch) = [0]"
  "below 0 (started j batch)"
  by (simp_all add: started_def start_session_def stages_published_def progress_values_def
      below_def)

lemma started_live: "live_row j \<Longrightarrow> live (started j batch)"
  by (simp add: started_def start_session_def live_def live_row_def terminal_def)

lemma try_block_cases:
  obtains
    (transcribe_raised) msg where
      "fst (transcribe_stage env (started j batch)) = Some msg"
      "try_block env (start_session j batch) = (Some msg, after_transcribe env j batch)"
  | (diarize_raised) msg where
      "fst (transcribe_stage env (started j batch)) = None"
      "fst (diarize_stage env (after_transcribe env j batch)) = Some msg"
      "try_block env (start_session j batch) = (Some msg, after_diarize env j batch)"
  | (tts_raised) msg where
      "fst (transcribe_stage env (started j batch)) = None"
      "fst (diarize_stage env (after_transcribe env j batch)) = None"
      "fst (tts_stage env (after_diarize env j batch)) = Some msg"
      "try_block env (start_session j batch) = (Some msg, after_tts env j batch)"
  | (finishing)
      "fst (transcribe_stage env (started j batch)) = None"
      "fst (diarize_stage env (after_transcribe env j batch)) = None"
      "fst (tts_stage env (after_diarize env j batch)) = None"
      "try_block env (start_session j batch) = complete_stage env (after_tts env j batch)"
proof -
  let ?t2 = "transcribe_stage env (started j batch)"
  let ?t3 = "diarize_stage env (after_transcribe env j batch)"
  let ?t4 = "tts_stage env (after_diarize env j batch)"
  have u: "try_block env (start_session j batch) =
      (if fst ?t2 = None
       then (if fst ?t3 = None
             then (if fst ?t4 = None then complete_stage env (after_tts env j batch) else ?t4)
             else ?t3)
       else ?t2)"
    by (simp add: try_block_def Let_def stage_case started_def after_transcribe_def
        after_diarize_def after_tts_def)
  show ?thesis
  proof (cases "fst ?t2")
    case (Some msg)
    then have "try_block env (start_session j batch) = (Some msg, after_transcribe env j batch)"
      unfolding u after_transcribe_def by (simp add: prod_eq_iff)
    then show ?thesis using Some transcribe_raised by blast
  next
    case n2: None
    show ?thesis
    proof (cases "fst ?t3")
      case (Some msg)
      then have "try_block env (start_session j batch) = (Some msg, after_diarize env j batch)"
        unfolding u after_diarize_def using n2 by (simp add: prod_eq_iff)
      then show ?thesis using n2 Some diarize_raised by blast
    next
      case n3: None
      show ?thesis
      proof (cases "fst ?t4")
        case (Some msg)
        then have "try_block env (start_session j batch) = (Some msg, after_tts env j batch)"
          unfolding u after_tts_def using n2 n3 by (simp add: prod_eq_iff)
        then show ?thesis using n2 n3 Some tts_raised by blast
      next
        case None
        then have "try_block env (start_session j batch) = complete_stage env (after_tts env j batch)"
          unfolding u using n2 n3 by simp
        then show ?thesis using n2 n3 None finishing by blast
      qed
    qed
  qed
qed

lemma after_states:
  "s_batch (after_transcribe env j batch) = batch"
  "s_batch (after_diarize env j batch) = batch"
  "s_batch (after_tts env j batch) = batch"
  "s_stored (after_transcribe env j batch) \<noteq> []"
  "s_stored (after_diarize env j batch) \<noteq> []"
  "s_stored (after_tts env j batch) \<noteq> []"
  "stages_published (after_transcribe env j batch) \<subseteq> {''processing'', ''transcribing''}"
  "stages_published (after_diarize env j batch) \<subseteq> {''processing'', ''transcribing'', ''diarizing''}"
  "stages_published (after_tts env j batch)
     \<subseteq> {''processing'', ''transcribing'', ''diarizing'', ''generating_tts''}"
proof -
  show b2: "s_batch (after_transcribe env j batch) = batch"
    by (simp add: after_transcribe_def transcribe_stage_contract(1) started_facts)
  show b3: "s_batch (after_diarize env j batch) = batch"
    by (simp add: after_diarize_def diarize_stage_contract(1) b2)
  show "s_batch (after_tts env j batch) = batch"
    by (simp add: after_tts_def tts_stage_contract(1) b3)
  show n2: "s_stored (after_transcribe env j batch) \<noteq> []"
    unfolding after_transcribe_def by (rule transcribe_stage_contract(2))
  show n3: "s_stored (after_diarize env j batch) \<noteq> []"
    unfolding after_diarize_def using n2 by (rule diarize_stage_contract(2))
  show "s_stored (after_tts env j batch) \<noteq> []"
    unfolding after_tts_def using n3 by (rule tts_stage_contract(2))
  show g2: "stages_published (after_transcribe env j batch) \<subseteq> {''processing'', ''transcribing''}"
    unfolding after_transcribe_def
    using transcribe_stage_contract(4)[of env "started j batch"] by (auto simp: started_facts)
  show g3: "stages_published (after_diarize env j batch)
      \<subseteq> {''processing'', ''transcribing'', ''diarizing''}"
    unfolding after_diarize_def
    using diarize_stage_contract(4)[of env "after_transcribe env j batch"] g2 by auto
  show "stages_published (after_tts env j batch)
     \<subseteq> {''processing'', ''transcribing'', ''diarizing'', ''generating_tts''}"
    unfolding after_tts_def
    using tts_stage_contract(4)[of env "after_diarize env j batch"] g3 by auto
qed

lemma after_live:
  assumes "live_row j"
  shows "live (after_transcribe env j batch)" "live (after_diarize env j batch)"
    "live (after_tts env j batch)"
proof -
  show l2: "live (after_transcribe env j batch)"
    unfolding after_transcribe_def using started_live[OF assms] by (rule transcribe_stage_contract(3))
  show l3: "live (after_diarize env j batch)"
    unfolding after_diarize_def using l2 by (rule diarize_stage_contract(3))
  show "live (after_tts env j batch)"
    unfolding after_tts_def using l3 by (rule tts_stage_contract(3))
qed


lemma run_result:
  "process_job_async env (Some j) batch =
     (case fst (try_block env (start_session j batch)) of
        None \<Rightarrow> (JobCompleted, Some (snd (try_block env (start_session j batch))))
      | Some msg \<Rightarrow>
          (fst (except_block env msg (snd (try_block env (start_session j batch)))),
           Some (snd (except_block env msg (snd (try_block env (start_session j batch)))))))"
  by (simp add: process_job_async_def split: prod.splits option.splits)

lemma run_raised:
  assumes "try_block env (start_session j batch) = (Some msg, s0)"
  shows "process_job_async env (Some j) batch =
           (fst (except_block env msg s0), Some (snd (except_block env msg s0)))"
  by (simp add: run_result assms)



lemma live_last: "live s \<Longrightarrow> live_row (last (s_stored s))"
  by (simp add: live_def list_all_iff)

lemma closed_failed:
  fixes env msg s0
  defines "s \<equiv> snd (except_block env msg s0)"
  assumes "live s0" "batch_safe (s_batch s0)"
  shows "s_stored s \<noteq> [] \<and> last (s_stored s) = s_job s \<and> status (s_job s) = FAILED \<and>
         list_all (\<lambda>row. progress row = 100 \<longleftrightarrow> status row = COMPLETED) (s_stored s) \<and>
         list_all live_row (butlast (s_stored s))"
proof -
  have ne: "s_stored s0 \<noteq> []" using assms(2) by (simp add: live_def)
  have rows: "list_all live_row (s_stored s0)" using assms(2) by (simp add: live_def)
  have l: "live_row (last (s_stored s0))" using assms(2) by (rule live_last)
  have j: "s_job s = (last (s_stored s0))\<lparr>status := FAILED, error_message := Some msg\<rparr>"
    unfolding s_def using assms(3) ne by (rule except_block_safe(4))
  have st: "s_stored s = s_stored s0 @ [(last (s_stored s0))\<lparr>status := FAILED, error_message := Some msg\<rparr>]"
    unfolding s_def using assms(3) ne by (rule except_block_safe(5))
  have old: "list_all (\<lambda>row. progress row = 100 \<longleftrightarrow> status row = COMPLETED) (s_stored s0)"
    using rows by (auto simp: list_all_iff live_row_def terminal_def)
  show ?thesis using j st old rows l by (simp add: live_row_def)
qed

lemma closed_completed:
  fixes env s0
  defines "s \<equiv> snd (complete_stage env s0)"
  assumes "live s0" "batch_safe (s_batch s0)"
  shows "s_stored s \<noteq> [] \<and> last (s_stored s) = s_job s \<and> status (s_job s) = COMPLETED \<and>
         list_all (\<lambda>row. progress row = 100 \<longleftrightarrow> status row = COMPLETED) (s_stored s) \<and>
         list_all live_row (butlast (s_stored s))"
proof -
  have ne: "s_stored s0 \<noteq> []" using assms(2) by (simp add: live_def)
  have rows: "list_all live_row (s_stored s0)" using assms(2) by (simp add: live_def)
  have j: "s_job s = (last (s_stored s0))\<lparr>status := COMPLETED, progress := 100\<rparr>"
    unfolding s_def using ne assms(3) by (rule complete_stage_safe(2))
  have st: "s_stored s = s_stored s0 @ [(last (s_stored s0))\<lparr>status := COMPLETED, progress := 100\<rparr>]"
    unfolding s_def using ne assms(3) by (rule complete_stage_safe(3))
  have old: "list_all (\<lambda>row. progress row = 100 \<longleftrightarrow> status row = COMPLETED) (s_stored s0)"
    using rows by (auto simp: list_all_iff live_row_def terminal_def)
  show ?thesis using j st old rows by simp
qed

lemma delete_job_terminal:
  assumes "jobs jid = Some row"
  shows "snd (delete_job jid jobs) jid = None"
    and "terminal (status row) \<Longrightarrow> fst (delete_job jid jobs) = Inr row"
    and "\<exists>row'. fst (delete_job jid jobs) = Inr row' \<and>
           (status row' = status row \<or> \<not> terminal (status row) \<and> status row' = CANCELLED) \<and>
           progress row' = progress row"
  using assms by (auto simp: delete_job_def terminal_def)

lemmas run_eval =
  process_job_async_def try_block_def transcribe_stage_def diarize_stage_def tts_stage_def
  complete_stage_def except_block_def run_transcription_def run_diarization_def run_tts_def
  find_model_def transcribe_faster_whisper_def progress_cb_def broadcast_progress_def
  commit_def refresh_def set_status_def batch_step_def py_truthy_def start_session_def
  new_job_def Let_def

subsection \<open>The outcome of a run\<close>

text \<open>
  C2. Take a job row that is not terminal and whose progress is not 100, as every row is
  when \<open>process_job_async\<close> picks it up, and a batch, if any, with at least one file. The run
  returns with a session whose last committed row is the job as it stands, in a terminal
  status; every row the run committed has progress 100 exactly when its status is
  completed; and no row before the last one is terminal, so that the terminal status,
  once written, is never changed by the run. \<open>delete_job\<close> removes the row; the row it
  deletes has the status it had, or is cancelled if that status was not terminal, and
  its progress is untouched: a terminal row is deleted as it is.
\<close>

theorem job_status_invariant:
  assumes "live_row j" and "batch_safe batch"
  shows "(\<exists>r s. process_job_async env (Some j) batch = (r, Some s) \<and>
            s_stored s \<noteq> [] \<and> last (s_stored s) = s_job s \<and> terminal (status (s_job s)) \<and>
            (r = JobCompleted \<longleftrightarrow> status (s_job s) = COMPLETED) \<and>
            list_all (\<lambda>row. progress row = 100 \<longleftrightarrow> status row = COMPLETED) (s_stored s) \<and>
            list_all live_row (butlast (s_stored s))) \<and>
         (\<forall>jobs jid row. jobs jid = Some row \<longrightarrow>
            snd (delete_job jid jobs) jid = None \<and>
            (terminal (status row) \<longrightarrow> fst (delete_job jid jobs) = Inr row) \<and>
            (\<exists>row'. fst (delete_job jid jobs) = Inr row' \<and>
               (status row' = status row \<or> \<not> terminal (status row) \<and> status row' = CANCELLED) \<and>
               progress row' = progress row))"
proof -
  let ?goal = "\<lambda>r s. process_job_async env (Some j) batch = (r, Some s) \<and>
            s_stored s \<noteq> [] \<and> last (s_stored s) = s_job s \<and> terminal (status (s_job s)) \<and>
            (r = JobCompleted \<longleftrightarrow> status (s_job s) = COMPLETED) \<and>
            list_all (\<lambda>row. progress row = 100 \<longleftrightarrow> status row = COMPLETED) (s_stored s) \<and>
            list_all live_row (butlast (s_stored s))"
  have failing: "\<exists>r s. ?goal r s"
    if t: "try_block env (start_session j batch) = (Some msg, s0)"
      and l: "live s0" and b: "s_batch s0 = batch" for msg s0
  proof -
    have safe: "batch_safe (s_batch s0)" using b assms(2) by simp
    have r: "fst (except_block env msg s0) = JobRaised msg"
      using safe by (rule except_block_safe(1))
    have "?goal (JobRaised msg) (snd (except_block env msg s0))"
      using run_raised[OF t] r closed_failed[OF l safe, of env msg]
      by (simp add: terminal_def)
    then show ?thesis by blast
  qed
  have run: "\<exists>r s. ?goal r s"
  proof (cases rule: try_block_cases[of env j batch])
    case (transcribe_raised msg)
    show ?thesis
      using transcribe_raised(2) after_live(1)[OF assms(1)] after_states(1) by (rule failing)
  next
    case (diarize_raised msg)
    show ?thesis
      using diarize_raised(3) after_live(2)[OF assms(1)] after_states(2) by (rule failing)
  next
    case (tts_raised msg)
    show ?thesis
      using tts_raised(4) after_live(3)[OF assms(1)] after_states(3) by (rule failing)
  next
    case finishing
    let ?s4 = "after_tts env j batch"
    have l: "live ?s4" using assms(1) by (rule after_live(3))
    have safe: "batch_safe (s_batch ?s4)" using assms(2) by (simp add: after_states(3))
    have ne: "s_stored ?s4 \<noteq> []" by (rule after_states(6))
    have n: "fst (complete_stage env ?s4) = None" using ne safe by (rule complete_stage_safe(1))
    have "process_job_async env (Some j) batch = (JobCompleted, Some (snd (complete_stage env ?s4)))"
      using finishing(4) n by (simp add: run_result)
    then have "?goal JobCompleted (snd (complete_stage env ?s4))"
      using closed_completed[OF l safe, of env] by (simp add: terminal_def)
    then show ?thesis by blast
  qed
  show ?thesis using run delete_job_terminal by blast
qed

text \<open>
  A queued job without a batch, run where no model is registered, ends failed; a
  completed row is deleted as it is.
\<close>

theorem job_status_invariant_witness:
  "live_row (new_job ''j'' None QUEUED) \<and> batch_safe None \<and>
   terminal (status (s_job (the (snd (process_job_async
     \<lparr>model_by_id = Map.empty, default_model = Map.empty, extract_audio_error = None,
      stt_adapter = Inl [], output_files_error = None, diar_audio_error = None,
      diar_adapter = Inl [], tts_adapter = None, combine_audio_error = None,
      batch_others = []\<rparr>
     (Some (new_job ''j'' None QUEUED)) None))))) \<and>
   fst (delete_job ''j'' [''j'' \<mapsto> new_job ''j'' None COMPLETED])
     = Inr (new_job ''j'' None COMPLETED)"
proof -
  let ?env = "\<lparr>model_by_id = Map.empty, default_model = Map.empty, extract_audio_error = None,
      stt_adapter = Inl [], output_files_error = None, diar_audio_error = None,
      diar_adapter = Inl [], tts_adapter = None, combine_audio_error = None,
      batch_others = []\<rparr>"
  have h1: "live_row (new_job ''j'' None QUEUED)"
    by (simp add: live_row_def new_job_def terminal_def)
  have h2: "batch_safe None" by (simp add: batch_safe_def)
  note t = job_status_invariant[OF h1 h2, of ?env]
  obtain r s where rs: "process_job_async ?env (Some (new_job ''j'' None QUEUED)) None = (r, Some s)"
    "terminal (status (s_job s))"
    using t by blast
  have a: "terminal (status (s_job (the (snd (process_job_async ?env
             (Some (new_job ''j'' None QUEUED)) None)))))"
    using rs by simp
  have h3: "[''j'' \<mapsto> new_job ''j'' None COMPLETED] ''j'' = Some (new_job ''j'' None COMPLETED)"
    by simp
  have h4: "terminal (status (new_job ''j'' None COMPLETED))"
    by (simp add: terminal_def new_job_def)
  have b: "fst (delete_job ''j'' [''j'' \<mapsto> new_job ''j'' None COMPLETED])
     = Inr (new_job ''j'' None COMPLETED)"
    using t h3 h4 by blast
  show ?thesis using h1 h2 a b by blast
qed




text \<open>
  C3 (amended). The run has three stages, transcription, diarization and synthesis. With
  a batch, if any, of at least one file: an exception that leaves a stage ends the run
  with the job failed, the message of the exception stored as its error message, the
  failure event published last, and no event of a later stage published. An exception
  of the diarization engine or of the synthesis engine does not leave its stage: the
  stage publishes the first 50 characters of the message and returns, and the run goes
  on.
\<close>

theorem stage_exceptions:
  assumes "batch_safe batch"
  shows "(\<forall>msg. fst (transcribe_stage env (started j batch)) = Some msg \<longrightarrow>
            (\<exists>s. process_job_async env (Some j) batch = (JobRaised msg, Some s) \<and>
                 failed_with msg s \<and>
                 stages_published s \<subseteq> {''processing'', ''transcribing'', ''failed''})) \<and>
         (\<forall>msg. fst (transcribe_stage env (started j batch)) = None \<and>
                fst (diarize_stage env (after_transcribe env j batch)) = Some msg \<longrightarrow>
            (\<exists>s. process_job_async env (Some j) batch = (JobRaised msg, Some s) \<and>
                 failed_with msg s \<and>
                 stages_published s \<subseteq> {''processing'', ''transcribing'', ''diarizing'', ''failed''})) \<and>
         (\<forall>msg. fst (transcribe_stage env (started j batch)) = None \<and>
                fst (diarize_stage env (after_transcribe env j batch)) = None \<and>
                fst (tts_stage env (after_diarize env j batch)) = Some msg \<longrightarrow>
            (\<exists>s. process_job_async env (Some j) batch = (JobRaised msg, Some s) \<and>
                 failed_with msg s \<and> ''completed'' \<notin> stages_published s)) \<and>
         (\<forall>s msg. usable env (diarization_model_id (s_job s)) ''diarization'' \<and>
                  diar_audio_error env = None \<and> diar_adapter env = Inl msg \<longrightarrow>
            run_diarization env s =
              (None, broadcast_progress 75 ''diarizing'' (''Diarization failed: '' @ take 50 msg)
                       (broadcast_progress 62 ''diarizing'' ''Running pyannote diarization...'' s))) \<and>
         (\<forall>s msg. usable env (tts_model_id (s_job s)) ''tts'' \<and> s_transcript s \<noteq> None \<and>
                  tts_adapter env = Some msg \<longrightarrow>
            fst (run_tts env s) = None \<and>
            last (s_events (snd (run_tts env s))) =
              \<lparr>ev_job = job_id (s_job s), ev_stage = ''generating_tts'', ev_progress = 95,
               ev_message = ''TTS failed: '' @ take 50 msg\<rparr>)"
proof -
  have failing: "\<exists>s. process_job_async env (Some j) batch = (JobRaised msg, Some s) \<and>
                 failed_with msg s \<and> stages_published s \<subseteq> insert ''failed'' A"
    if t: "try_block env (start_session j batch) = (Some msg, s0)"
      and ne: "s_stored s0 \<noteq> []" and b: "s_batch s0 = batch"
      and g: "stages_published s0 \<subseteq> A" for msg s0 A
  proof -
    have safe: "batch_safe (s_batch s0)" using b assms by simp
    have "process_job_async env (Some j) batch = (JobRaised msg, Some (snd (except_block env msg s0)))"
      using run_raised[OF t] except_block_safe(1)[OF safe, of env msg] by simp
    moreover have "failed_with msg (snd (except_block env msg s0))"
      using safe ne by (rule except_block_safe(6))
    moreover have "stages_published (snd (except_block env msg s0)) \<subseteq> insert ''failed'' A"
      using except_block_safe(3)[OF safe, of env msg] g by auto
    ultimately show ?thesis by blast
  qed
  have 1: "\<exists>s. process_job_async env (Some j) batch = (JobRaised msg, Some s) \<and>
                 failed_with msg s \<and>
                 stages_published s \<subseteq> {''processing'', ''transcribing'', ''failed''}"
    if "fst (transcribe_stage env (started j batch)) = Some msg" for msg
  proof (cases rule: try_block_cases[of env j batch])
    case (transcribe_raised m)
    then have "try_block env (start_session j batch) = (Some msg, after_transcribe env j batch)"
      using that by simp
    from failing[OF this after_states(4) after_states(1) after_states(7)]
    show ?thesis by (simp add: insert_commute)
  qed (use that in simp_all)
  have 2: "\<exists>s. process_job_async env (Some j) batch = (JobRaised msg, Some s) \<and>
                 failed_with msg s \<and>
                 stages_published s \<subseteq> {''processing'', ''transcribing'', ''diarizing'', ''failed''}"
    if "fst (transcribe_stage env (started j batch)) = None"
      "fst (diarize_stage env (after_transcribe env j batch)) = Some msg" for msg
  proof (cases rule: try_block_cases[of env j batch])
    case (diarize_raised m)
    then have "try_block env (start_session j batch) = (Some msg, after_diarize env j batch)"
      using that by simp
    from failing[OF this after_states(5) after_states(2) after_states(8)]
    show ?thesis by (simp add: insert_commute)
  qed (use that in simp_all)
  have 3: "\<exists>s. process_job_async env (Some j) batch = (JobRaised msg, Some s) \<and>
                 failed_with msg s \<and> ''completed'' \<notin> stages_published s"
    if "fst (transcribe_stage env (started j batch)) = None"
      "fst (diarize_stage env (after_transcribe env j batch)) = None"
      "fst (tts_stage env (after_diarize env j batch)) = Some msg" for msg
  proof (cases rule: try_block_cases[of env j batch])
    case (tts_raised m)
    then have "try_block env (start_session j batch) = (Some msg, after_tts env j batch)"
      using that by simp
    from failing[OF this after_states(6) after_states(3) after_states(9)]
    show ?thesis by auto
  qed (use that in simp_all)
  have 4: "run_diarization env s =
              (None, broadcast_progress 75 ''diarizing'' (''Diarization failed: '' @ take 50 msg)
                       (broadcast_progress 62 ''diarizing'' ''Running pyannote diarization...'' s))"
    if "usable env (diarization_model_id (s_job s)) ''diarization''"
      "diar_audio_error env = None" "diar_adapter env = Inl msg" for s msg
    using that by (simp add: usable_def run_diarization_def Let_def split: option.splits)
  have 5: "fst (run_tts env s) = None \<and>
            last (s_events (snd (run_tts env s))) =
              \<lparr>ev_job = job_id (s_job s), ev_stage = ''generating_tts'', ev_progress = 95,
               ev_message = ''TTS failed: '' @ take 50 msg\<rparr>"
    if "usable env (tts_model_id (s_job s)) ''tts''" "s_transcript s \<noteq> None"
      "tts_adapter env = Some msg" for s msg
    using that
    by (auto simp: usable_def run_tts_def Let_def broadcast_progress_def split: option.splits)
  show ?thesis using 1 2 3 4 5 by blast
qed

text \<open>
  A job run where no transcription model is registered fails with the message of the
  exception; where the diarization engine raises, the diarization stage returns.
\<close>

theorem stage_exceptions_witness:
  "batch_safe None \<and>
   failed_with ''No STT model available. Please register and download a model first.''
     (the (snd (process_job_async
       \<lparr>model_by_id = Map.empty, default_model = Map.empty, extract_audio_error = None,
        stt_adapter = Inl [], output_files_error = None, diar_audio_error = None,
        diar_adapter = Inl [], tts_adapter = None, combine_audio_error = None,
        batch_others = []\<rparr>
       (Some (new_job ''j'' None QUEUED)) None))) \<and>
   fst (run_diarization
       \<lparr>model_by_id = Map.empty,
        default_model = [''diarization'' \<mapsto> \<lparr>model_name = ''pyannote'', is_default = True,
            is_downloaded = True, local_path = None, download_progress = None,
            download_error = None\<rparr>],
        extract_audio_error = None, stt_adapter = Inl [], output_files_error = None,
        diar_audio_error = None, diar_adapter = Inl ''boom'', tts_adapter = None,
        combine_audio_error = None, batch_others = []\<rparr>
       (start_session (new_job ''j'' None DIARIZING) None)) = None"
proof -
  let ?bad = "\<lparr>model_by_id = Map.empty, default_model = Map.empty, extract_audio_error = None,
      stt_adapter = Inl [], output_files_error = None, diar_audio_error = None,
      diar_adapter = Inl [], tts_adapter = None, combine_audio_error = None,
      batch_others = []\<rparr>"
  let ?env = "\<lparr>model_by_id = Map.empty,
        default_model = [''diarization'' \<mapsto> \<lparr>model_name = ''pyannote'', is_default = True,
            is_downloaded = True, local_path = None, download_progress = None,
            download_error = None\<rparr>],
        extract_audio_error = None, stt_adapter = Inl [], output_files_error = None,
        diar_audio_error = None, diar_adapter = Inl ''boom'', tts_adapter = None,
        combine_audio_error = None, batch_others = []\<rparr>"
  let ?j = "new_job ''j'' None QUEUED"
  let ?s = "start_session (new_job ''j'' None DIARIZING) None"
  let ?m = "''No STT model available. Please register and download a model first.''"
  have h1: "batch_safe None" by (simp add: batch_safe_def)
  have h2: "fst (transcribe_stage ?bad (started ?j None)) = Some ?m"
    by (simp add: transcribe_stage_def run_transcription_def find_model_def started_def
        start_session_def new_job_def set_status_def commit_def broadcast_progress_def)
  obtain s where s: "process_job_async ?bad (Some ?j) None = (JobRaised ?m, Some s)"
    "failed_with ?m s"
    using stage_exceptions[OF h1, of ?bad ?j] h2 by blast
  have a: "failed_with ?m (the (snd (process_job_async ?bad (Some ?j) None)))"
    using s by simp
  have h3: "usable ?env (diarization_model_id (s_job ?s)) ''diarization''"
    by (simp add: usable_def find_model_def start_session_def new_job_def)
  have h4: "diar_audio_error ?env = None" "diar_adapter ?env = Inl ''boom''" by simp_all
  have "run_diarization ?env ?s =
          (None, broadcast_progress 75 ''diarizing'' (''Diarization failed: '' @ take 50 ''boom'')
                   (broadcast_progress 62 ''diarizing'' ''Running pyannote diarization...'' ?s))"
    using stage_exceptions[OF h1, of ?env] h3 h4 by blast
  then have b: "fst (run_diarization ?env ?s) = None" by simp
  show ?thesis using h1 a b by blast
qed

text \<open>
  A job whose diarization engine raises: the run completes, the synthesis stage is
  entered after it, and the job carries no error message.
\<close>

theorem engine_failure_counterexample:
  "fst (process_job_async
     \<lparr>model_by_id = Map.empty,
      default_model = [''whisper'' \<mapsto> \<lparr>model_name = ''base'', is_default = True,
          is_downloaded = True, local_path = None, download_progress = None,
          download_error = None\<rparr>,
        ''diarization'' \<mapsto> \<lparr>model_name = ''pyannote'', is_default = True,
          is_downloaded = True, local_path = None, download_progress = None,
          download_error = None\<rparr>],
      extract_audio_error = None,
      stt_adapter = Inr \<lparr>w_segments = [], w_error = None, w_language = ''en'', w_duration = 0\<rparr>,
      output_files_error = None, diar_audio_error = None,
      diar_adapter = Inl ''boom'', tts_adapter = None, combine_audio_error = None,
      batch_others = []\<rparr>
     (Some ((new_job ''j'' None QUEUED)\<lparr>enable_diarization := True, enable_tts := True\<rparr>))
     None) = JobCompleted \<and>
   map_option (status \<circ> s_job) (snd (process_job_async
     \<lparr>model_by_id = Map.empty,
      default_model = [''whisper'' \<mapsto> \<lparr>model_name = ''base'', is_default = True,
          is_downloaded = True, local_path = None, download_progress = None,
          download_error = None\<rparr>,
        ''diarization'' \<mapsto> \<lparr>model_name = ''pyannote'', is_default = True,
          is_downloaded = True, local_path = None, download_progress = None,
          download_error = None\<rparr>],
      extract_audio_error = None,
      stt_adapter = Inr \<lparr>w_segments = [], w_error = None, w_language = ''en'', w_duration = 0\<rparr>,
      output_files_error = None, diar_audio_error = None,
      diar_adapter = Inl ''boom'', tts_adapter = None, combine_audio_error = None,
      batch_others = []\<rparr>
     (Some ((new_job ''j'' None QUEUED)\<lparr>enable_diarization := True, enable_tts := True\<rparr>))
     None)) = Some COMPLETED \<and>
   map_option (map ev_message \<circ> s_events) (snd (process_job_async
     \<lparr>model_by_id = Map.empty,
      default_model = [''whisper'' \<mapsto> \<lparr>model_name = ''base'', is_default = True,
          is_downloaded = True, local_path = None, download_progress = None,
          download_error = None\<rparr>,
        ''diarization'' \<mapsto> \<lparr>model_name = ''pyannote'', is_default = True,
          is_downloaded = True, local_path = None, download_progress = None,
          download_error = None\<rparr>],
      extract_audio_error = None,
      stt_adapter = Inr \<lparr>w_segments = [], w_error = None, w_language = ''en'', w_duration = 0\<rparr>,
      output_files_error = None, diar_audio_error = None,
      diar_adapter = Inl ''boom'', tts_adapter = None, combine_audio_error = None,
      batch_others = []\<rparr>
     (Some ((new_job ''j'' None QUEUED)\<lparr>enable_diarization := True, enable_tts := True\<rparr>))
     None)) =
   Some [''Starting job...'', ''Transcribing audio...'', ''Identifying speakers...'',
     ''Running pyannote diarization...'', ''Diarization failed: boom'',
     ''Synthesizing speech...'', ''No TTS model - skipping'', ''Job completed!'']"
  by (simp add: run_eval)

end
